theory Spec2Isabelle
  imports Main "HOL-Library.Word" "HOL-Library.Sublist"
begin

section \<open>Return states\<close>

text \<open>
  Every function of obj.c returns an \<open>rsRetVal\<close>. The model keeps the state
  \<open>RS_RET_OK\<close> apart from the others: a call that returns \<open>RS_RET_OK\<close> is \<open>Ok\<close> with
  the values it wrote through its output pointers, any other state is \<open>Err\<close>. A call that
  does not return at all (a failed \<open>assert\<close>, the call of \<open>abort()\<close>, a jump through a
  null pointer, a method slot outside of the table) is \<open>Crash\<close>.

  The assertions of the code are part of the model: it is the code as it is compiled
  without \<open>NDEBUG\<close>. Assertions that a pointer argument is not null are left out where
  the model has a value in place of the pointer, and so are the macros \<open>ISOBJ_assert\<close>
  and \<open>ISOBJ_TYPE_assert\<close> and the debug output.
\<close>

datatype rsRetVal =
    RS_RET_OUT_OF_MEMORY
  | RS_RET_NOT_IMPLEMENTED
  | RS_RET_INVALID_OID
  | RS_RET_INVALID_HEADER
  | RS_RET_INVALID_HEADER_RECTYPE
  | RS_RET_INVALID_HEADER_VERS
  | RS_RET_INVALID_DELIMITER
  | RS_RET_INVALID_NUMBER
  | RS_RET_INVALID_PROPFRAME
  | RS_RET_INVALID_TRAILER
  | RS_RET_NO_PROPLINE
  | RS_RET_PROVIDED_BUFFER_TOO_SMALL
  | RS_RET_EOF
  | RS_RET_INTERFACE_NOT_SUPPORTED

datatype fault = AssertionFailed | AbortCalled | NullPointer | OutOfBounds

datatype 'a res = Ok 'a | Err rsRetVal | Crash fault

text \<open>
  \<open>CHKiRet(f(...))\<close> leaves the function with the state of \<open>f\<close> unless that state is
  \<open>RS_RET_OK\<close>; \<open>ABORT_FINALIZE(e)\<close> leaves it with \<open>e\<close>. Where the label \<open>finalize_it\<close>
  is followed by clean-up code, the model writes that code out.
\<close>

definition CHKiRet :: "('s \<Rightarrow> 'a res \<times> 's) \<Rightarrow> ('a \<Rightarrow> 's \<Rightarrow> 'b res \<times> 's) \<Rightarrow> 's \<Rightarrow> 'b res \<times> 's" where
  "CHKiRet m f s =
     (case m s of
        (Ok x, s') \<Rightarrow> f x s'
      | (Err e, s') \<Rightarrow> (Err e, s')
      | (Crash c, s') \<Rightarrow> (Crash c, s'))"

definition RETiRet :: "'a \<Rightarrow> 's \<Rightarrow> 'a res \<times> 's" where
  "RETiRet x s = (Ok x, s)"

definition ABORT_FINALIZE :: "rsRetVal \<Rightarrow> 's \<Rightarrow> 'a res \<times> 's" where
  "ABORT_FINALIZE e s = (Err e, s)"

definition c_assert :: "bool \<Rightarrow> 's \<Rightarrow> unit res \<times> 's" where
  "c_assert b s = (if b then (Ok (), s) else (Crash AssertionFailed, s))"

section \<open>The byte stream\<close>

text \<open>
  Modelled from the spec: the stream class (stream.c) is not part of the sources. The
  spec gives it \<open>readChar() \<rightarrow> char | EOF\<close> and \<open>unreadChar(c)\<close> with a single slot of
  pushback. A stream that is read is the slot and the characters not read yet.
\<close>

record strm =
  iUngetC :: "char option"
  unread_data :: "char list"

definition strmReadChar :: "strm \<Rightarrow> char res \<times> strm" where
  "strmReadChar pStrm =
     (case iUngetC pStrm of
        Some c \<Rightarrow> (Ok c, pStrm\<lparr>iUngetC := None\<rparr>)
      | None \<Rightarrow>
          (case unread_data pStrm of
             [] \<Rightarrow> (Err RS_RET_EOF, pStrm)
           | c # cs \<Rightarrow> (Ok c, pStrm\<lparr>unread_data := cs\<rparr>)))"

definition strmUnreadChar :: "char \<Rightarrow> strm \<Rightarrow> unit res \<times> strm" where
  "strmUnreadChar c pStrm = (Ok (), pStrm\<lparr>iUngetC := Some c\<rparr>)"

text \<open>What a reader of the stream will see, in order.\<close>

definition pending :: "strm \<Rightarrow> char list" where
  "pending pStrm =
     (case iUngetC pStrm of None \<Rightarrow> unread_data pStrm | Some c \<Rightarrow> c # unread_data pStrm)"

definition strm_of :: "char list \<Rightarrow> strm" where
  "strm_of cs = \<lparr>iUngetC = None, unread_data = cs\<rparr>"

lemma pending_strm_of [simp]: "pending (strm_of cs) = cs"
  by (simp add: pending_def strm_of_def)

lemma strmReadChar_pending:
  "strmReadChar pStrm =
     (case pending pStrm of
        [] \<Rightarrow> (Err RS_RET_EOF, pStrm)
      | c # cs \<Rightarrow> (Ok c, strm_of cs))"
  by (cases pStrm) (auto simp: strmReadChar_def pending_def strm_of_def split: option.splits list.splits)

lemma strmReadChar_strm_of_Nil [simp]:
  "strmReadChar (strm_of []) = (Err RS_RET_EOF, strm_of [])"
  by (simp add: strmReadChar_pending)

lemma strmReadChar_strm_of_Cons [simp]:
  "strmReadChar (strm_of (c # cs)) = (Ok c, strm_of cs)"
  by (simp add: strmReadChar_pending)

lemma strmUnreadChar_strm_of [simp]:
  "pending (snd (strmUnreadChar c (strm_of cs))) = c # cs"
  by (simp add: strmUnreadChar_def pending_def strm_of_def)

lemma strmReadChar_Ok_shorter:
  "strmReadChar pStrm = (Ok c, pStrm') \<Longrightarrow> length (pending pStrm') < length (pending pStrm)"
  by (auto simp: strmReadChar_pending split: list.splits)

lemma strmReadChar_Ok_shorter_sym:
  "(Ok c, pStrm') = strmReadChar pStrm \<Longrightarrow> length (pending pStrm') < length (pending pStrm)"
  by (rule strmReadChar_Ok_shorter [OF sym])

lemma strmReadChar_Ok_pending:
  "strmReadChar pStrm = (Ok c, pStrm') \<Longrightarrow> pending pStrm = c # pending pStrm' \<and> pStrm' = strm_of (pending pStrm')"
  by (auto simp: strmReadChar_pending split: list.splits)

lemma strmReadChar_not_Crash: "strmReadChar pStrm \<noteq> (Crash f, pStrm')"
  by (auto simp: strmReadChar_pending split: list.splits)

section \<open>Numbers\<close>

text \<open>
  \<open>number_t\<close> is declared in a header outside of the sources; it is taken as a signed
  integer of 64 bits. The arithmetic of the parser is the arithmetic of the machine: it
  wraps around.
\<close>

type_synonym number_t = "64 word"

definition isdigit :: "char \<Rightarrow> bool" where
  "isdigit c = (48 \<le> (of_char c :: nat) \<and> (of_char c :: nat) \<le> 57)"

text \<open>The loop \<open>while(isdigit(c)) { i = i * 10 + c - '0'; NEXTC; }\<close>.\<close>

function objDeserializeNumber_digits :: "number_t \<Rightarrow> char \<Rightarrow> strm \<Rightarrow> (number_t \<times> char) res \<times> strm" where
  "objDeserializeNumber_digits i c pStrm =
     (if isdigit c then
        (case strmReadChar pStrm of
           (Ok c', pStrm') \<Rightarrow> objDeserializeNumber_digits (i * 10 + of_nat (of_char c) - 48) c' pStrm'
         | (Err e, pStrm') \<Rightarrow> (Err e, pStrm')
         | (Crash f, pStrm') \<Rightarrow> (Crash f, pStrm'))
      else (Ok (i, c), pStrm))"
  by pat_completeness auto
termination
  by (relation "measure (\<lambda>(i, c, pStrm). length (pending pStrm))")
     (auto dest: strmReadChar_Ok_shorter_sym)

definition objDeserializeNumber :: "strm \<Rightarrow> number_t res \<times> strm" where
  "objDeserializeNumber =
     CHKiRet strmReadChar (\<lambda>c0.
     CHKiRet (if c0 = CHR ''-''
              then CHKiRet strmReadChar (\<lambda>c. RETiRet (True, c))
              else RETiRet (False, c0)) (\<lambda>(bIsNegative, c).
     if \<not> isdigit c then ABORT_FINALIZE RS_RET_INVALID_NUMBER
     else
     CHKiRet (objDeserializeNumber_digits 0 c) (\<lambda>(i, c).
     if c \<noteq> CHR '':'' then ABORT_FINALIZE RS_RET_INVALID_DELIMITER
     else RETiRet (if bIsNegative then i * (- 1) else i))))"


section \<open>Constants of the headers\<close>

text \<open>
  obj.c uses enumerators and array sizes that are declared in headers outside of the
  sources: the number of class ids, the number of handler slots, the slots of the
  property setter and of the construction finaliser, and the numbers of the value types.
  They are arguments of the model. The constructor is slot 0 and the destructor slot 1:
  \<open>InfoConstruct\<close> stores them there.
\<close>

record obj_consts =
  OBJ_NUM_IDS :: int
  OBJ_NUM_METHODS :: nat
  objMethod_SETPROPERTY :: nat
  objMethod_CONSTRUCTION_FINALIZER :: nat
  VARTYPE_NONE :: "32 word"
  VARTYPE_STR :: "32 word"
  VARTYPE_NUMBER :: "32 word"
  VARTYPE_SYSLOGTIME :: "32 word"

definition objMethod_CONSTRUCT :: nat where
  "objMethod_CONSTRUCT = 0"

definition objMethod_DESTRUCT :: nat where
  "objMethod_DESTRUCT = 1"

definition COOKIE_OBJLINE :: char where
  "COOKIE_OBJLINE = CHR ''<''"

definition COOKIE_PROPLINE :: char where
  "COOKIE_PROPLINE = CHR ''+''"

definition COOKIE_ENDLINE :: char where
  "COOKIE_ENDLINE = CHR ''>''"

definition COOKIE_BLANKLINE :: char where
  "COOKIE_BLANKLINE = CHR ''.''"

section \<open>The deserializer\<close>

text \<open>The idiom \<open>NEXTC; if(c != x) ABORT_FINALIZE(e);\<close>.\<close>

definition NEXTC_expect :: "char \<Rightarrow> rsRetVal \<Rightarrow> strm \<Rightarrow> unit res \<times> strm" where
  "NEXTC_expect x e =
     CHKiRet strmReadChar (\<lambda>c. if c \<noteq> x then ABORT_FINALIZE e else RETiRet ())"

subsection \<open>Strings\<close>

text \<open>
  The loop \<open>for(i = 0 ; i < iLen ; ++i) { append c; NEXTC; }\<close>; the first argument is the
  number of rounds still to go.
\<close>

fun objDeserializeStr_chars :: "nat \<Rightarrow> string \<Rightarrow> char \<Rightarrow> strm \<Rightarrow> (string \<times> char) res \<times> strm" where
  "objDeserializeStr_chars 0 pCStr c pStrm = (Ok (pCStr, c), pStrm)"
| "objDeserializeStr_chars (Suc n) pCStr c pStrm =
     (case strmReadChar pStrm of
        (Ok c', pStrm') \<Rightarrow> objDeserializeStr_chars n (pCStr @ [c]) c' pStrm'
      | (Err e, pStrm') \<Rightarrow> (Err e, pStrm')
      | (Crash f, pStrm') \<Rightarrow> (Crash f, pStrm'))"

definition objDeserializeStr :: "int \<Rightarrow> strm \<Rightarrow> string res \<times> strm" where
  "objDeserializeStr iLen =
     CHKiRet (c_assert (iLen > 0)) (\<lambda>_.
     CHKiRet strmReadChar (\<lambda>c.
     CHKiRet (objDeserializeStr_chars (nat iLen) [] c) (\<lambda>(pCStr, c).
     if c \<noteq> CHR '':'' then ABORT_FINALIZE RS_RET_INVALID_DELIMITER
     else RETiRet pCStr)))"

subsection \<open>Time stamps\<close>

text \<open>
  The structure is declared in a header outside of the sources. The serializer prints
  eleven of its members with \<open>%d\<close>, which takes an \<open>int\<close>, and one with \<open>%c\<close>;
  the model gives the eleven the width of an \<open>int\<close>.
\<close>

record syslogTime =
  timeType :: "32 word"
  year :: "32 word"
  month :: "32 word"
  day :: "32 word"
  hour :: "32 word"
  minute :: "32 word"
  second :: "32 word"
  secfrac :: "32 word"
  secfracPrecision :: "32 word"
  OffsetMode :: char
  OffsetHour :: "32 word"
  OffsetMinute :: "32 word"

text \<open>
  \<open>GETVAL(var)\<close>: read a number and store it in a member, which cuts it to the member's
  width. The function writes every member of the structure it is given, so the model
  returns the structure.
\<close>

definition GETVAL :: "strm \<Rightarrow> 32 word res \<times> strm" where
  "GETVAL = CHKiRet objDeserializeNumber (\<lambda>l. RETiRet (ucast l))"

definition objDeserializeSyslogTime :: "strm \<Rightarrow> syslogTime res \<times> strm" where
  "objDeserializeSyslogTime =
     CHKiRet GETVAL (\<lambda>v1.
     CHKiRet GETVAL (\<lambda>v2.
     CHKiRet GETVAL (\<lambda>v3.
     CHKiRet GETVAL (\<lambda>v4.
     CHKiRet GETVAL (\<lambda>v5.
     CHKiRet GETVAL (\<lambda>v6.
     CHKiRet GETVAL (\<lambda>v7.
     CHKiRet GETVAL (\<lambda>v8.
     CHKiRet GETVAL (\<lambda>v9.
     CHKiRet strmReadChar (\<lambda>c.
     CHKiRet (NEXTC_expect (CHR '':'') RS_RET_INVALID_DELIMITER) (\<lambda>_.
     CHKiRet GETVAL (\<lambda>v10.
     CHKiRet GETVAL (\<lambda>v11.
     RETiRet \<lparr>timeType = v1, year = v2, month = v3, day = v4, hour = v5,
              minute = v6, second = v7, secfrac = v8, secfracPrecision = v9,
              OffsetMode = c, OffsetHour = v10, OffsetMinute = v11\<rparr>)))))))))))))"

subsection \<open>The header\<close>

text \<open>The loop \<open>while(c != '\n') { NEXTC; }\<close>.\<close>

function objDeserializeHeader_skip :: "char \<Rightarrow> strm \<Rightarrow> unit res \<times> strm" where
  "objDeserializeHeader_skip c pStrm =
     (if c \<noteq> CHR 0x0A then
        (case strmReadChar pStrm of
           (Ok c', pStrm') \<Rightarrow> objDeserializeHeader_skip c' pStrm'
         | (Err e, pStrm') \<Rightarrow> (Err e, pStrm')
         | (Crash f, pStrm') \<Rightarrow> (Crash f, pStrm'))
      else (Ok (), pStrm))"
  by pat_completeness auto
termination
  by (relation "measure (\<lambda>(c, pStrm). length (pending pStrm))")
     (auto dest: strmReadChar_Ok_shorter_sym)

definition objDeserializeHeader :: "obj_consts \<Rightarrow> string \<Rightarrow> strm \<Rightarrow> (int \<times> 32 word) res \<times> strm" where
  "objDeserializeHeader K pszRecType =
     CHKiRet (c_assert (pszRecType = ''Obj'' \<or> pszRecType = ''OPB'')) (\<lambda>_.
     CHKiRet (NEXTC_expect COOKIE_OBJLINE RS_RET_INVALID_HEADER) (\<lambda>_.
     CHKiRet (NEXTC_expect (pszRecType ! 0) RS_RET_INVALID_HEADER_RECTYPE) (\<lambda>_.
     CHKiRet (NEXTC_expect (pszRecType ! 1) RS_RET_INVALID_HEADER_RECTYPE) (\<lambda>_.
     CHKiRet (NEXTC_expect (pszRecType ! 2) RS_RET_INVALID_HEADER_RECTYPE) (\<lambda>_.
     CHKiRet (NEXTC_expect (CHR '':'') RS_RET_INVALID_HEADER) (\<lambda>_.
     CHKiRet (NEXTC_expect (CHR ''1'') RS_RET_INVALID_HEADER_VERS) (\<lambda>_.
     CHKiRet (NEXTC_expect (CHR '':'') RS_RET_INVALID_HEADER_VERS) (\<lambda>_.
     CHKiRet objDeserializeNumber (\<lambda>ioID.
     CHKiRet objDeserializeNumber (\<lambda>oVers.
     if sint ioID < 1 \<or> sint ioID \<ge> OBJ_NUM_IDS K then ABORT_FINALIZE RS_RET_INVALID_OID
     else
     CHKiRet strmReadChar (\<lambda>c.
     CHKiRet (objDeserializeHeader_skip c) (\<lambda>_.
     RETiRet (sint ioID, ucast oVers)))))))))))))"

subsection \<open>Properties\<close>

text \<open>
  A \<open>var_t\<close> carries the name of a property, the number of its value type and the value.
  The value is a union in the code; the model keeps which member was written last.
\<close>

datatype varval = val_none | val_pStr string | val_num number_t | val_vSyslogTime syslogTime

record var_t =
  pcsName :: string
  varType :: "32 word"
  val :: varval

text \<open>The loop \<open>while(c != ':') { append c; NEXTC; }\<close> that reads the name.\<close>

function objDeserializeProperty_name :: "string \<Rightarrow> char \<Rightarrow> strm \<Rightarrow> string res \<times> strm" where
  "objDeserializeProperty_name n c pStrm =
     (if c \<noteq> CHR '':'' then
        (case strmReadChar pStrm of
           (Ok c', pStrm') \<Rightarrow> objDeserializeProperty_name (n @ [c]) c' pStrm'
         | (Err e, pStrm') \<Rightarrow> (Err e, pStrm')
         | (Crash f, pStrm') \<Rightarrow> (Crash f, pStrm'))
      else (Ok n, pStrm))"
  by pat_completeness auto
termination
  by (relation "measure (\<lambda>(n, c, pStrm). length (pending pStrm))")
     (auto dest: strmReadChar_Ok_shorter_sym)

text \<open>
  The part of \<open>objDeserializeProperty\<close> after the cookie. The length is passed to
  \<open>objDeserializeStr\<close> as an \<open>int\<close>. A value type that is none of the three leaves
  the value as it is.
\<close>

definition objDeserializeProperty_line :: "obj_consts \<Rightarrow> var_t \<Rightarrow> strm \<Rightarrow> var_t res \<times> strm" where
  "objDeserializeProperty_line K pProp =
     CHKiRet strmReadChar (\<lambda>c.
     CHKiRet (objDeserializeProperty_name [] c) (\<lambda>n.
     CHKiRet objDeserializeNumber (\<lambda>i.
     CHKiRet objDeserializeNumber (\<lambda>iLen.
     CHKiRet
       (if (ucast i :: 32 word) = VARTYPE_STR K then
          CHKiRet (objDeserializeStr (sint (ucast iLen :: 32 word))) (\<lambda>pStr. RETiRet (val_pStr pStr))
        else if (ucast i :: 32 word) = VARTYPE_NUMBER K then
          CHKiRet objDeserializeNumber (\<lambda>num. RETiRet (val_num num))
        else if (ucast i :: 32 word) = VARTYPE_SYSLOGTIME K then
          CHKiRet objDeserializeSyslogTime (\<lambda>t. RETiRet (val_vSyslogTime t))
        else RETiRet (val pProp)) (\<lambda>v.
     CHKiRet (NEXTC_expect (CHR 0x0A) RS_RET_INVALID_PROPFRAME) (\<lambda>_.
     RETiRet \<lparr>pcsName = n, varType = ucast i, val = v\<rparr>))))))"

definition objDeserializeProperty :: "obj_consts \<Rightarrow> var_t \<Rightarrow> strm \<Rightarrow> var_t res \<times> strm" where
  "objDeserializeProperty K pProp =
     CHKiRet strmReadChar (\<lambda>c.
     if c \<noteq> COOKIE_PROPLINE then
       CHKiRet (strmUnreadChar c) (\<lambda>_. ABORT_FINALIZE RS_RET_NO_PROPLINE)
     else objDeserializeProperty_line K pProp)"

subsection \<open>The trailer\<close>

definition objDeserializeTrailer :: "strm \<Rightarrow> unit res \<times> strm" where
  "objDeserializeTrailer =
     CHKiRet (NEXTC_expect COOKIE_ENDLINE RS_RET_INVALID_TRAILER) (\<lambda>_.
     CHKiRet (NEXTC_expect (CHR ''E'') RS_RET_INVALID_TRAILER) (\<lambda>_.
     CHKiRet (NEXTC_expect (CHR ''n'') RS_RET_INVALID_TRAILER) (\<lambda>_.
     CHKiRet (NEXTC_expect (CHR ''d'') RS_RET_INVALID_TRAILER) (\<lambda>_.
     CHKiRet (NEXTC_expect (CHR 0x0A) RS_RET_INVALID_TRAILER) (\<lambda>_.
     CHKiRet (NEXTC_expect COOKIE_BLANKLINE RS_RET_INVALID_TRAILER) (\<lambda>_.
     NEXTC_expect (CHR 0x0A) RS_RET_INVALID_TRAILER))))))"

subsection \<open>Recovery\<close>

text \<open>The loop of \<open>objDeserializeTryRecover\<close>; it ends with the character read last.\<close>

function objDeserializeTryRecover_scan :: "bool \<Rightarrow> strm \<Rightarrow> char res \<times> strm" where
  "objDeserializeTryRecover_scan bWasNL pStrm =
     (case strmReadChar pStrm of
        (Ok c, pStrm') \<Rightarrow>
          (if c = CHR 0x0A then objDeserializeTryRecover_scan True pStrm'
           else if bWasNL \<and> c = COOKIE_OBJLINE then (Ok c, pStrm')
           else objDeserializeTryRecover_scan False pStrm')
      | (Err e, pStrm') \<Rightarrow> (Err e, pStrm')
      | (Crash f, pStrm') \<Rightarrow> (Crash f, pStrm'))"
  by pat_completeness auto
termination
  by (relation "measure (\<lambda>(b, pStrm). length (pending pStrm))")
     (auto dest: strmReadChar_Ok_shorter_sym)

definition objDeserializeTryRecover :: "strm \<Rightarrow> unit res \<times> strm" where
  "objDeserializeTryRecover =
     CHKiRet (objDeserializeTryRecover_scan False) (\<lambda>c.
     CHKiRet (strmUnreadChar c) (\<lambda>_. RETiRet ()))"


declare objDeserializeNumber_digits.simps [simp del]
declare objDeserializeHeader_skip.simps [simp del]
declare objDeserializeProperty_name.simps [simp del]
declare objDeserializeTryRecover_scan.simps [simp del]

subsection \<open>The readers only move forward\<close>

text \<open>
  No reader but \<open>objDeserializeProperty\<close> and \<open>objDeserializeTryRecover\<close> puts a
  character back: what is left to read after a call is a suffix of what was left before.
  The loops over headers and over properties end for this reason.
\<close>

definition consumes :: "(strm \<Rightarrow> 'a res \<times> strm) \<Rightarrow> bool" where
  "consumes m = (\<forall>s. suffix (pending (snd (m s))) (pending s))"

lemma consumesD: "consumes m \<Longrightarrow> m s = (r, s') \<Longrightarrow> suffix (pending s') (pending s)"
  by (auto simp: consumes_def dest: spec [of _ s])

lemma consumes_strmReadChar [simp]: "consumes strmReadChar"
  by (auto simp: consumes_def strmReadChar_pending suffix_def split: list.splits)

lemma consumes_RETiRet [simp]: "consumes (RETiRet x)"
  by (simp add: consumes_def RETiRet_def)

lemma consumes_ABORT_FINALIZE [simp]: "consumes (ABORT_FINALIZE e)"
  by (simp add: consumes_def ABORT_FINALIZE_def)

lemma consumes_c_assert [simp]: "consumes (c_assert b)"
  by (simp add: consumes_def c_assert_def)

lemma consumes_CHKiRet [intro!]:
  assumes "consumes m" and "\<And>x. consumes (f x)"
  shows "consumes (CHKiRet m f)"
  unfolding consumes_def
proof
  fix s
  obtain r s1 where m: "m s = (r, s1)" by (cases "m s")
  have s1: "suffix (pending s1) (pending s)" using consumesD [OF assms(1) m] .
  show "suffix (pending (snd (CHKiRet m f s))) (pending s)"
  proof (cases r)
    case (Ok x)
    obtain r' s2 where f: "f x s1 = (r', s2)" by (cases "f x s1")
    have "suffix (pending s2) (pending s1)" using consumesD [OF assms(2) f] .
    with s1 show ?thesis using Ok m f by (auto simp: CHKiRet_def intro: suffix_order.trans)
  qed (use m s1 in \<open>auto simp: CHKiRet_def\<close>)
qed

lemma consumes_if [intro!]:
  "(b \<Longrightarrow> consumes m) \<Longrightarrow> (\<not> b \<Longrightarrow> consumes n) \<Longrightarrow> consumes (if b then m else n)"
  by simp

lemma consumes_case_prod [intro!]:
  "(\<And>a b. consumes (f a b)) \<Longrightarrow> consumes (case_prod f p)"
  by (cases p) simp

lemma consumes_NEXTC_expect [simp]: "consumes (NEXTC_expect x e)"
  unfolding NEXTC_expect_def by (intro consumes_CHKiRet consumes_if) simp_all

lemma digits_suffix:
  "suffix (pending (snd (objDeserializeNumber_digits i c s))) (pending s)"
proof (induction i c s rule: objDeserializeNumber_digits.induct)
  case (1 i c pStrm)
  show ?case
  proof (cases "isdigit c")
    case False
    then show ?thesis by (subst objDeserializeNumber_digits.simps) simp
  next
    case True
    show ?thesis
    proof (cases "pending pStrm")
      case Nil
      then show ?thesis using True
        by (subst objDeserializeNumber_digits.simps) (simp add: strmReadChar_pending)
    next
      case (Cons c' cs)
      then have rd: "strmReadChar pStrm = (Ok c', strm_of cs)" by (simp add: strmReadChar_pending)
      from "1.IH" [OF True rd [symmetric] refl] 
      have "suffix (pending (snd (objDeserializeNumber_digits (i * 10 + of_nat (of_char c) - 48) c' (strm_of cs)))) cs"
        by simp
      then show ?thesis using True rd Cons
        by (subst objDeserializeNumber_digits.simps) (simp add: suffix_Cons)
    qed
  qed
qed

lemma consumes_digits [simp]: "consumes (objDeserializeNumber_digits i c)"
  by (simp add: consumes_def digits_suffix)

lemma consumes_objDeserializeNumber [simp]: "consumes objDeserializeNumber"
  unfolding objDeserializeNumber_def
  by (intro consumes_CHKiRet consumes_if consumes_case_prod) simp_all


lemma skip_suffix:
  "suffix (pending (snd (objDeserializeHeader_skip c s))) (pending s)"
proof (induction c s rule: objDeserializeHeader_skip.induct)
  case (1 c pStrm)
  show ?case
  proof (cases "c \<noteq> CHR 0x0A")
    case False
    then show ?thesis by (subst objDeserializeHeader_skip.simps) simp
  next
    case True
    show ?thesis
    proof (cases "pending pStrm")
      case Nil
      then show ?thesis using True
        by (subst objDeserializeHeader_skip.simps) (simp add: strmReadChar_pending)
    next
      case (Cons c' cs)
      then have rd: "strmReadChar pStrm = (Ok c', strm_of cs)" by (simp add: strmReadChar_pending)
      from "1.IH" [OF True rd [symmetric] refl]
      show ?thesis using True rd Cons
        by (subst objDeserializeHeader_skip.simps) (simp add: suffix_Cons)
    qed
  qed
qed

lemma consumes_skip [simp]: "consumes (objDeserializeHeader_skip c)"
  by (simp add: consumes_def skip_suffix)

lemma name_suffix:
  "suffix (pending (snd (objDeserializeProperty_name n c s))) (pending s)"
proof (induction n c s rule: objDeserializeProperty_name.induct)
  case (1 n c pStrm)
  show ?case
  proof (cases "c \<noteq> CHR '':''")
    case False
    then show ?thesis by (subst objDeserializeProperty_name.simps) simp
  next
    case True
    show ?thesis
    proof (cases "pending pStrm")
      case Nil
      then show ?thesis using True
        by (subst objDeserializeProperty_name.simps) (simp add: strmReadChar_pending)
    next
      case (Cons c' cs)
      then have rd: "strmReadChar pStrm = (Ok c', strm_of cs)" by (simp add: strmReadChar_pending)
      from "1.IH" [OF True rd [symmetric] refl]
      show ?thesis using True rd Cons
        by (subst objDeserializeProperty_name.simps) (simp add: suffix_Cons)
    qed
  qed
qed

lemma consumes_name [simp]: "consumes (objDeserializeProperty_name n c)"
  by (simp add: consumes_def name_suffix)

lemma chars_suffix:
  "suffix (pending (snd (objDeserializeStr_chars k acc c s))) (pending s)"
proof (induction k arbitrary: acc c s)
  case 0
  then show ?case by simp
next
  case (Suc k)
  show ?case
  proof (cases "pending s")
    case Nil
    then show ?thesis by (simp add: strmReadChar_pending)
  next
    case (Cons c' cs)
    then have rd: "strmReadChar s = (Ok c', strm_of cs)" by (simp add: strmReadChar_pending)
    from Suc [of "acc @ [c]" c' "strm_of cs"]
    show ?thesis using rd Cons by (simp add: suffix_Cons)
  qed
qed

lemma consumes_chars [simp]: "consumes (objDeserializeStr_chars k acc c)"
  by (simp add: consumes_def chars_suffix)

lemma consumes_objDeserializeStr [simp]: "consumes (objDeserializeStr iLen)"
  unfolding objDeserializeStr_def
  by (intro consumes_CHKiRet consumes_if consumes_case_prod) simp_all

lemma consumes_GETVAL [simp]: "consumes GETVAL"
  unfolding GETVAL_def by (intro consumes_CHKiRet) simp_all

lemma consumes_objDeserializeSyslogTime [simp]: "consumes objDeserializeSyslogTime"
  unfolding objDeserializeSyslogTime_def
  by (intro consumes_CHKiRet) simp_all

lemma consumes_objDeserializeHeader [simp]: "consumes (objDeserializeHeader K t)"
  unfolding objDeserializeHeader_def
  by (intro consumes_CHKiRet consumes_if) simp_all

lemma consumes_objDeserializeTrailer [simp]: "consumes objDeserializeTrailer"
  unfolding objDeserializeTrailer_def
  by (intro consumes_CHKiRet) simp_all

lemma consumes_objDeserializeProperty_line [simp]: "consumes (objDeserializeProperty_line K v)"
  unfolding objDeserializeProperty_line_def
  by (intro consumes_CHKiRet consumes_if) simp_all

lemma objDeserializeProperty_Ok_shorter:
  assumes "objDeserializeProperty K v s = (Ok v', s')"
  shows "length (pending s') < length (pending s)"
proof (cases "pending s")
  case Nil
  with assms show ?thesis
    by (simp add: objDeserializeProperty_def CHKiRet_def strmReadChar_pending)
next
  case (Cons c cs)
  then have rd: "strmReadChar s = (Ok c, strm_of cs)" by (simp add: strmReadChar_pending)
  show ?thesis
  proof (cases "c = COOKIE_PROPLINE")
    case True
    with assms rd have "objDeserializeProperty_line K v (strm_of cs) = (Ok v', s')"
      by (simp add: objDeserializeProperty_def CHKiRet_def)
    from consumesD [OF consumes_objDeserializeProperty_line this]
    have "length (pending s') \<le> length cs" by (auto dest: suffix_length_le)
    then show ?thesis using Cons by simp
  next
    case False
    with assms rd show ?thesis
      by (simp add: objDeserializeProperty_def CHKiRet_def strmUnreadChar_def ABORT_FINALIZE_def)
  qed
qed

text \<open>Recovery reads at least two characters before it finds a header cookie.\<close>

lemma scan_Ok:
  "objDeserializeTryRecover_scan b s = (Ok c, s') \<Longrightarrow>
     \<exists>pre. pending s = pre @ c # pending s' \<and> (\<not> b \<longrightarrow> pre \<noteq> []) \<and> s' = strm_of (pending s')"
proof (induction b s rule: objDeserializeTryRecover_scan.induct)
  case (1 bWasNL pStrm)
  show ?case
  proof (cases "pending pStrm")
    case Nil
    with "1.prems" show ?thesis
      by (subst (asm) objDeserializeTryRecover_scan.simps) (simp add: strmReadChar_pending)
  next
    case (Cons c' cs)
    then have rd: "strmReadChar pStrm = (Ok c', strm_of cs)" by (simp add: strmReadChar_pending)
    consider (nl) "c' = CHR 0x0A" | (found) "c' \<noteq> CHR 0x0A" "bWasNL \<and> c' = COOKIE_OBJLINE"
      | (other) "c' \<noteq> CHR 0x0A" "\<not> (bWasNL \<and> c' = COOKIE_OBJLINE)" by blast
    then show ?thesis
    proof cases
      case nl
      with "1.prems" rd have "objDeserializeTryRecover_scan True (strm_of cs) = (Ok c, s')"
        by (subst (asm) objDeserializeTryRecover_scan.simps) simp
      from "1.IH"(1) [OF rd [symmetric] refl nl this]
      obtain pre where "cs = pre @ c # pending s'" "s' = strm_of (pending s')" by auto
      then have "pending pStrm = (c' # pre) @ c # pending s'" using Cons by simp
      then show ?thesis using \<open>s' = strm_of (pending s')\<close> by blast
    next
      case found
      with "1.prems" rd have "c = c'" "s' = strm_of cs"
        by (subst (asm) objDeserializeTryRecover_scan.simps, simp)+
      then show ?thesis using Cons found by auto
    next
      case other
      with "1.prems" rd have "objDeserializeTryRecover_scan False (strm_of cs) = (Ok c, s')"
        by (subst (asm) objDeserializeTryRecover_scan.simps) auto
      from "1.IH"(2) [OF rd [symmetric] refl other this]
      obtain pre where "cs = pre @ c # pending s'" "s' = strm_of (pending s')" by auto
      then have "pending pStrm = (c' # pre) @ c # pending s'" using Cons by simp
      then show ?thesis using \<open>s' = strm_of (pending s')\<close> by blast
    qed
  qed
qed

lemma objDeserializeTryRecover_Ok_shorter:
  assumes "objDeserializeTryRecover s = (Ok u, s')"
  shows "length (pending s') < length (pending s)"
proof -
  from assms obtain c s1 where sc: "objDeserializeTryRecover_scan False s = (Ok c, s1)"
    and s': "s' = snd (strmUnreadChar c s1)"
    by (auto simp: objDeserializeTryRecover_def CHKiRet_def RETiRet_def strmUnreadChar_def
             split: prod.splits res.splits)
  from scan_Ok [OF sc] obtain pre where p: "pending s = pre @ c # pending s1" "pre \<noteq> []"
    and n: "s1 = strm_of (pending s1)" by auto
  have "pending s' = c # pending s1" using s' n strmUnreadChar_strm_of [of c "pending s1"] by simp
  then show ?thesis using p by (cases pre) auto
qed

lemma header_retry_shorter:
  assumes "objDeserializeHeader K t s = (r, s1)" and "objDeserializeTryRecover s1 = (Ok u, s2)"
  shows "length (pending s2) < length (pending s)"
proof -
  have "length (pending s1) \<le> length (pending s)"
    using consumesD [OF consumes_objDeserializeHeader assms(1)] by (rule suffix_length_le)
  with objDeserializeTryRecover_Ok_shorter [OF assms(2)] show ?thesis by simp
qed

section \<open>Classes\<close>

text \<open>
  A handler slot holds a function pointer. It is null, or the dummy
  \<open>objInfoNotImplementedDummy\<close>, or a function of the class. The functions of a class are
  called with nothing but the address of a pointer (the constructor), with an instance,
  or with an instance and a property; they return the instance they built or changed.
\<close>

datatype 'o margs = args_ppObj | args_pObj 'o | args_pObj_pVar 'o var_t

datatype 'o handler = NULL_handler | objInfoNotImplementedDummy | Handler "'o margs \<Rightarrow> 'o res"

fun invoke :: "'o handler \<Rightarrow> 'o margs \<Rightarrow> 'o res" where
  "invoke NULL_handler a = Crash NullPointer"
| "invoke objInfoNotImplementedDummy a = Err RS_RET_NOT_IMPLEMENTED"
| "invoke (Handler f) a = f a"

fun is_NULL :: "'o handler \<Rightarrow> bool" where
  "is_NULL NULL_handler = True"
| "is_NULL objInfoNotImplementedDummy = False"
| "is_NULL (Handler f) = False"

record 'o objInfo =
  objID :: int
  iObjVers :: int
  pszName :: string
  objMethods :: "'o handler list"

definition objInfoIsImplemented :: "'o objInfo \<Rightarrow> nat \<Rightarrow> bool" where
  "objInfoIsImplemented pThis m =
     (case objMethods pThis ! m of objInfoNotImplementedDummy \<Rightarrow> False | _ \<Rightarrow> True)"

text \<open>
  \<open>InfoConstruct\<close>. The first argument says whether \<open>calloc\<close> found memory; the memory
  it returns is zero, so every slot starts as a null pointer. The table has
  \<open>OBJ_NUM_METHODS\<close> slots, of which the code writes the first two without a check: the
  theorems are about tables of two slots or more.
\<close>

definition InfoConstruct ::
  "obj_consts \<Rightarrow> bool \<Rightarrow> int \<Rightarrow> string \<Rightarrow> int \<Rightarrow> 'o handler \<Rightarrow> 'o handler \<Rightarrow> 'o objInfo res" where
  "InfoConstruct K calloc_ok oID pszName' iObjVers' pConstruct pDestruct =
     (if is_NULL pDestruct then Crash AssertionFailed
      else if \<not> calloc_ok then Err RS_RET_OUT_OF_MEMORY
      else Ok \<lparr>objID = oID, iObjVers = iObjVers', pszName = pszName',
               objMethods =
                 foldl (\<lambda>ms i. ms[i := objInfoNotImplementedDummy])
                   ((replicate (OBJ_NUM_METHODS K) NULL_handler)[0 := pConstruct, 1 := pDestruct])
                   [2 ..< OBJ_NUM_METHODS K]\<rparr>)"

text \<open>\<open>InfoSetMethod\<close>; the slot is a value of an enumeration, an integer.\<close>

definition InfoSetMethod :: "obj_consts \<Rightarrow> 'o objInfo \<Rightarrow> int \<Rightarrow> 'o handler \<Rightarrow> 'o objInfo res" where
  "InfoSetMethod K pThis objMethod pHandler =
     (if \<not> (objMethod > 0 \<and> objMethod < int (OBJ_NUM_METHODS K)) then Crash AssertionFailed
      else Ok (pThis\<lparr>objMethods := (objMethods pThis)[nat objMethod := pHandler]\<rparr>))"

text \<open>
  The registry \<open>arrObjInfo\<close> is an array of \<open>OBJ_NUM_IDS\<close> pointers, at the indices
  \<open>0 ..< OBJ_NUM_IDS\<close>. The model maps every integer to a pointer, so that it can say
  what an access behind the end of the array meets. \<open>objClassInit\<close> sets the pointers of
  the array to null.
\<close>

type_synonym 'o registry = "int \<Rightarrow> 'o objInfo option"

definition objClassInit :: "obj_consts \<Rightarrow> 'o registry \<Rightarrow> 'o registry" where
  "objClassInit K arrObjInfo = (\<lambda>i. if 0 \<le> i \<and> i < OBJ_NUM_IDS K then None else arrObjInfo i)"

text \<open>
  \<open>RegisterObj\<close> reads \<open>arrObjInfo[oID]\<close> in its second assertion, before it has compared
  \<open>oID\<close> with the bounds. With an index outside of the array that access is undefined.
  The model keeps one word of memory behind the array, the one at index \<open>OBJ_NUM_IDS\<close>,
  which is what the comparison \<open>oID > OBJ_NUM_IDS\<close> lets through; an access at any other
  index outside of the array ends the call with a fault.
\<close>

definition RegisterObj ::
  "obj_consts \<Rightarrow> int \<Rightarrow> 'o objInfo option \<Rightarrow> 'o registry \<Rightarrow> unit res \<times> 'o registry" where
  "RegisterObj K oID pInfo =
     CHKiRet (c_assert (\<not> Option.is_none pInfo)) (\<lambda>_.
     if oID < 0 \<or> oID > OBJ_NUM_IDS K then (\<lambda>arrObjInfo. (Crash OutOfBounds, arrObjInfo))
     else
     CHKiRet (\<lambda>arrObjInfo. c_assert (Option.is_none (arrObjInfo oID)) arrObjInfo) (\<lambda>_.
     if oID < 1 \<or> oID > OBJ_NUM_IDS K then ABORT_FINALIZE RS_RET_INVALID_OID
     else (\<lambda>arrObjInfo. (Ok (), arrObjInfo(oID := pInfo)))))"

section \<open>Deserializing objects\<close>

text \<open>
  The functions below read the stream and call methods of a class. The state they work on
  is the stream and the list of the calls made so far.
\<close>

datatype 'o event = ev_method int nat "'o margs" | ev_fFixup 'o | ev_free

record 'o state =
  stream :: strm
  calls :: "'o event list"

definition on_strm :: "(strm \<Rightarrow> 'a res \<times> strm) \<Rightarrow> 'o state \<Rightarrow> 'a res \<times> 'o state" where
  "on_strm m st = (case m (stream st) of (r, s') \<Rightarrow> (r, st\<lparr>stream := s'\<rparr>))"

text \<open>The call \<open>arrObjInfo[oID]->objMethods[m](...)\<close>.\<close>

definition call_method :: "'o registry \<Rightarrow> int \<Rightarrow> nat \<Rightarrow> 'o margs \<Rightarrow> 'o state \<Rightarrow> 'o res \<times> 'o state" where
  "call_method arrObjInfo oID m a st =
     (case arrObjInfo oID of
        None \<Rightarrow> (Crash NullPointer, st)
      | Some pInfo \<Rightarrow>
          if m < length (objMethods pInfo)
          then (invoke (objMethods pInfo ! m) a, st\<lparr>calls := calls st @ [ev_method oID m a]\<rparr>)
          else (Crash OutOfBounds, st))"

lemma stream_call_method [simp]: "stream (snd (call_method arrObjInfo oID m a st)) = stream st"
  by (simp add: call_method_def split: option.splits)

text \<open>
  Modelled from the spec: the class of \<open>var_t\<close> (var.c) is not part of the sources; a
  property is constructed fresh, with no name and no value.
\<close>

definition var_Construct :: "obj_consts \<Rightarrow> var_t" where
  "var_Construct K = \<lparr>pcsName = [], varType = VARTYPE_NONE K, val = val_none\<rparr>"

lemma call_method_stream:
  "(r, st') = call_method arrObjInfo oID m a st \<Longrightarrow> stream st' = stream st"
  using stream_call_method [of arrObjInfo oID m a st] by (metis snd_conv)

lemma objDeserializeProperties_loop_shorter:
  assumes "(Ok pVar', s1) = objDeserializeProperty K pVar (stream st)"
    and "(r, st') = call_method arrObjInfo oID m a (st\<lparr>stream := s1\<rparr>)"
  shows "length (pending (stream st')) < length (pending (stream st))"
proof -
  have "stream st' = s1" using call_method_stream [OF assms(2)] by simp
  then show ?thesis using objDeserializeProperty_Ok_shorter [OF assms(1) [symmetric]] by simp
qed

text \<open>
  The loop of \<open>objDeserializeProperties\<close>. It ends with \<open>Ok\<close> and the state that
  \<open>objDeserializeProperty\<close> returned last, when that state is not \<open>RS_RET_OK\<close>; it ends
  with \<open>Err\<close> when the property setter fails.
\<close>

function objDeserializeProperties_loop ::
  "obj_consts \<Rightarrow> 'o registry \<Rightarrow> int \<Rightarrow> 'o \<Rightarrow> var_t \<Rightarrow> 'o state \<Rightarrow> ('o \<times> rsRetVal) res \<times> 'o state" where
  "objDeserializeProperties_loop K arrObjInfo oID pObj pVar st =
     (case objDeserializeProperty K pVar (stream st) of
        (Ok pVar', s1) \<Rightarrow>
          (case call_method arrObjInfo oID (objMethod_SETPROPERTY K) (args_pObj_pVar pObj pVar')
                  (st\<lparr>stream := s1\<rparr>) of
             (Ok pObj', st') \<Rightarrow> objDeserializeProperties_loop K arrObjInfo oID pObj' pVar' st'
           | (Err e, st') \<Rightarrow> (Err e, st')
           | (Crash f, st') \<Rightarrow> (Crash f, st'))
      | (Err iRet, s1) \<Rightarrow> (Ok (pObj, iRet), st\<lparr>stream := s1\<rparr>)
      | (Crash f, s1) \<Rightarrow> (Crash f, st\<lparr>stream := s1\<rparr>))"
  by pat_completeness auto
termination
  by (relation "measure (\<lambda>(K, arrObjInfo, oID, pObj, pVar, st). length (pending (stream st)))")
     (auto intro: objDeserializeProperties_loop_shorter)

declare objDeserializeProperties_loop.simps [simp del]

definition objDeserializeProperties ::
  "obj_consts \<Rightarrow> 'o registry \<Rightarrow> 'o \<Rightarrow> int \<Rightarrow> 'o state \<Rightarrow> 'o res \<times> 'o state" where
  "objDeserializeProperties K arrObjInfo pObj oID =
     CHKiRet (c_assert (oID > 0 \<and> oID < OBJ_NUM_IDS K)) (\<lambda>_.
     CHKiRet (objDeserializeProperties_loop K arrObjInfo oID pObj (var_Construct K)) (\<lambda>(pObj', iRet).
     if iRet \<noteq> RS_RET_NO_PROPLINE then ABORT_FINALIZE iRet
     else
     CHKiRet (on_strm objDeserializeTrailer) (\<lambda>_.
     RETiRet pObj')))"

text \<open>The call \<open>abort()\<close> does not return.\<close>

definition c_abort :: "'s \<Rightarrow> unit res \<times> 's" where
  "c_abort s = (Crash AbortCalled, s)"

text \<open>
  The loop \<open>do { ... } while(iRetLocal != RS_RET_OK)\<close> of \<open>Deserialize\<close>, with the call of
  \<open>abort()\<close> that stands in front of the call of \<open>objDeserializeTryRecover\<close>.
\<close>

function Deserialize_header :: "obj_consts \<Rightarrow> strm \<Rightarrow> (int \<times> 32 word) res \<times> strm" where
  "Deserialize_header K pStrm =
     (case objDeserializeHeader K ''Obj'' pStrm of
        (Ok r, pStrm1) \<Rightarrow> (Ok r, pStrm1)
      | (Err iRetLocal, pStrm1) \<Rightarrow>
          (case c_abort pStrm1 of
             (Ok u, pStrm2) \<Rightarrow>
               (case objDeserializeTryRecover pStrm2 of
                  (Ok u, pStrm3) \<Rightarrow> Deserialize_header K pStrm3
                | (Err e, pStrm3) \<Rightarrow> (Err e, pStrm3)
                | (Crash f, pStrm3) \<Rightarrow> (Crash f, pStrm3))
           | (Err e, pStrm2) \<Rightarrow> (Err e, pStrm2)
           | (Crash f, pStrm2) \<Rightarrow> (Crash f, pStrm2))
      | (Crash f, pStrm1) \<Rightarrow> (Crash f, pStrm1))"
  by pat_completeness auto
termination
  by (relation "measure (\<lambda>(K, pStrm). length (pending pStrm))")
     (auto simp: c_abort_def)

text \<open>The same loop in \<open>objDeserializeObjAsPropBag\<close>: record type \<open>Obj\<close>, no \<open>abort()\<close>.\<close>

function objDeserializeObjAsPropBag_header :: "obj_consts \<Rightarrow> strm \<Rightarrow> (int \<times> 32 word) res \<times> strm" where
  "objDeserializeObjAsPropBag_header K pStrm =
     (case objDeserializeHeader K ''Obj'' pStrm of
        (Ok r, pStrm1) \<Rightarrow> (Ok r, pStrm1)
      | (Err iRetLocal, pStrm1) \<Rightarrow>
          (case objDeserializeTryRecover pStrm1 of
             (Ok u, pStrm2) \<Rightarrow> objDeserializeObjAsPropBag_header K pStrm2
           | (Err e, pStrm2) \<Rightarrow> (Err e, pStrm2)
           | (Crash f, pStrm2) \<Rightarrow> (Crash f, pStrm2))
      | (Crash f, pStrm1) \<Rightarrow> (Crash f, pStrm1))"
  by pat_completeness auto
termination
  by (relation "measure (\<lambda>(K, pStrm). length (pending pStrm))")
     (auto intro: header_retry_shorter [OF sym sym])

text \<open>The same loop in \<open>DeserializePropBag\<close>: record type \<open>OPB\<close>, no \<open>abort()\<close>.\<close>

function DeserializePropBag_header :: "obj_consts \<Rightarrow> strm \<Rightarrow> (int \<times> 32 word) res \<times> strm" where
  "DeserializePropBag_header K pStrm =
     (case objDeserializeHeader K ''OPB'' pStrm of
        (Ok r, pStrm1) \<Rightarrow> (Ok r, pStrm1)
      | (Err iRetLocal, pStrm1) \<Rightarrow>
          (case objDeserializeTryRecover pStrm1 of
             (Ok u, pStrm2) \<Rightarrow> DeserializePropBag_header K pStrm2
           | (Err e, pStrm2) \<Rightarrow> (Err e, pStrm2)
           | (Crash f, pStrm2) \<Rightarrow> (Crash f, pStrm2))
      | (Crash f, pStrm1) \<Rightarrow> (Crash f, pStrm1))"
  by pat_completeness auto
termination
  by (relation "measure (\<lambda>(K, pStrm). length (pending pStrm))")
     (auto intro: header_retry_shorter [OF sym sym])

declare Deserialize_header.simps [simp del]
declare objDeserializeObjAsPropBag_header.simps [simp del]
declare DeserializePropBag_header.simps [simp del]

text \<open>
  The code at \<open>finalize_it\<close> in \<open>Deserialize\<close>: when the state is not \<open>RS_RET_OK\<close> and
  the constructor has returned an instance, the memory of the instance is freed.
\<close>

definition Deserialize_finalize :: "('o state \<Rightarrow> 'o res \<times> 'o state) \<Rightarrow> 'o state \<Rightarrow> 'o res \<times> 'o state" where
  "Deserialize_finalize m st =
     (case m st of
        (Ok pObj, st') \<Rightarrow> (Ok pObj, st')
      | (Err e, st') \<Rightarrow> (Err e, st'\<lparr>calls := calls st' @ [ev_free]\<rparr>)
      | (Crash f, st') \<Rightarrow> (Crash f, st'))"

text \<open>The call of the fixup function, which may be a null pointer.\<close>

definition call_fFixup :: "('o \<Rightarrow> 'o res) option \<Rightarrow> 'o \<Rightarrow> 'o state \<Rightarrow> 'o res \<times> 'o state" where
  "call_fFixup fFixup pObj st =
     (case fFixup of
        None \<Rightarrow> (Ok pObj, st)
      | Some f \<Rightarrow> (f pObj, st\<lparr>calls := calls st @ [ev_fFixup pObj]\<rparr>))"

definition Deserialize ::
  "obj_consts \<Rightarrow> 'o registry \<Rightarrow> int \<Rightarrow> ('o \<Rightarrow> 'o res) option \<Rightarrow> 'o state \<Rightarrow> 'o res \<times> 'o state" where
  "Deserialize K arrObjInfo objTypeExpected fFixup =
     CHKiRet (c_assert (objTypeExpected > 0 \<and> objTypeExpected < OBJ_NUM_IDS K)) (\<lambda>_.
     CHKiRet (on_strm (Deserialize_header K)) (\<lambda>(oID, oVers).
     if oID \<noteq> objTypeExpected then ABORT_FINALIZE RS_RET_INVALID_OID
     else
     CHKiRet (call_method arrObjInfo oID objMethod_CONSTRUCT args_ppObj) (\<lambda>pObj.
     Deserialize_finalize (
       CHKiRet (objDeserializeProperties K arrObjInfo pObj oID) (\<lambda>pObj.
       CHKiRet (call_fFixup fFixup pObj) (\<lambda>pObj.
       case arrObjInfo oID of
         None \<Rightarrow> (\<lambda>st. (Crash NullPointer, st))
       | Some pInfo \<Rightarrow>
           if \<not> objMethod_CONSTRUCTION_FINALIZER K < length (objMethods pInfo)
           then (\<lambda>st. (Crash OutOfBounds, st))
           else if objInfoIsImplemented pInfo (objMethod_CONSTRUCTION_FINALIZER K)
           then call_method arrObjInfo oID (objMethod_CONSTRUCTION_FINALIZER K) (args_pObj pObj)
           else RETiRet pObj))))))"

text \<open>
  An instance: the base part that every object starts with, and the data of its class,
  which is what the methods of the class work on. The macros \<open>objGetObjID\<close>,
  \<open>objGetVersion\<close> and \<open>objGetClassName\<close> are defined in a header outside of the
  sources; they read the descriptor that the instance points to.
\<close>

record 'o obj_t =
  pObjInfo :: "'o objInfo"
  obj_pszName :: "string option"
  obj_data :: 'o

definition objGetObjID :: "'o obj_t \<Rightarrow> int" where
  "objGetObjID pThis = objID (pObjInfo pThis)"

definition objGetVersion :: "'o obj_t \<Rightarrow> int" where
  "objGetVersion pThis = iObjVers (pObjInfo pThis)"

definition objGetClassName :: "'o obj_t \<Rightarrow> string" where
  "objGetClassName pThis = pszName (pObjInfo pThis)"

definition objDeserializeObjAsPropBag ::
  "obj_consts \<Rightarrow> 'o registry \<Rightarrow> 'o obj_t \<Rightarrow> 'o state \<Rightarrow> 'o obj_t res \<times> 'o state" where
  "objDeserializeObjAsPropBag K arrObjInfo pObj =
     CHKiRet (on_strm (objDeserializeObjAsPropBag_header K)) (\<lambda>(oID, oVers).
     if oID \<noteq> objGetObjID pObj then ABORT_FINALIZE RS_RET_INVALID_OID
     else
     CHKiRet (objDeserializeProperties K arrObjInfo (obj_data pObj) oID) (\<lambda>d.
     RETiRet (pObj\<lparr>obj_data := d\<rparr>)))"

definition DeserializePropBag ::
  "obj_consts \<Rightarrow> 'o registry \<Rightarrow> 'o obj_t \<Rightarrow> 'o state \<Rightarrow> 'o obj_t res \<times> 'o state" where
  "DeserializePropBag K arrObjInfo pObj =
     CHKiRet (on_strm (DeserializePropBag_header K)) (\<lambda>(oID, oVers).
     if oID \<noteq> objGetObjID pObj then ABORT_FINALIZE RS_RET_INVALID_OID
     else
     CHKiRet (objDeserializeProperties K arrObjInfo (obj_data pObj) oID) (\<lambda>d.
     RETiRet (pObj\<lparr>obj_data := d\<rparr>)))"

section \<open>The serializer\<close>

text \<open>
  Modelled from the spec: the write operations of the stream class, \<open>writeChar(c)\<close>,
  \<open>writeBytes(buf)\<close> and \<open>writeInteger(n)\<close> (decimal ASCII). What is written is put
  behind the characters that are still to be read. The spec names no way for them to
  fail. \<open>beginRecord()\<close> and \<open>endRecord()\<close> frame a record and write nothing.
\<close>

fun dec_nat :: "nat \<Rightarrow> string" where
  "dec_nat n = (if n < 10 then [char_of (48 + n)] else dec_nat (n div 10) @ [char_of (48 + n mod 10)])"

declare dec_nat.simps [simp del]

definition dec_int :: "int \<Rightarrow> string" where
  "dec_int i = (if i < 0 then CHR ''-'' # dec_nat (nat (- i)) else dec_nat (nat i))"

definition strmWriteChar :: "char \<Rightarrow> strm \<Rightarrow> unit res \<times> strm" where
  "strmWriteChar c pStrm = (Ok (), pStrm\<lparr>unread_data := unread_data pStrm @ [c]\<rparr>)"

definition strmWrite :: "string \<Rightarrow> nat \<Rightarrow> strm \<Rightarrow> unit res \<times> strm" where
  "strmWrite pBuf lenBuf pStrm = (Ok (), pStrm\<lparr>unread_data := unread_data pStrm @ take lenBuf pBuf\<rparr>)"

definition strmWriteLong :: "int \<Rightarrow> strm \<Rightarrow> unit res \<times> strm" where
  "strmWriteLong i pStrm = (Ok (), pStrm\<lparr>unread_data := unread_data pStrm @ dec_int i\<rparr>)"

definition strmRecordBegin :: "strm \<Rightarrow> unit res \<times> strm" where
  "strmRecordBegin pStrm = (Ok (), pStrm)"

definition strmRecordEnd :: "strm \<Rightarrow> unit res \<times> strm" where
  "strmRecordEnd pStrm = (Ok (), pStrm)"

text \<open>
  Modelled from the spec: \<open>srUtilItoA\<close> (srUtils.c) is not part of the sources; integers
  of all widths render as decimal ASCII, with a leading \<open>-\<close> for negatives.
\<close>

definition srUtilItoA :: "number_t \<Rightarrow> 's \<Rightarrow> string res \<times> 's" where
  "srUtilItoA iToConv = RETiRet (dec_int (sint iToConv))"

definition objSerializeHeader :: "'o obj_t \<Rightarrow> string \<Rightarrow> strm \<Rightarrow> unit res \<times> strm" where
  "objSerializeHeader pObj pszRecType =
     CHKiRet (c_assert (pszRecType = ''Obj'' \<or> pszRecType = ''OPB'')) (\<lambda>_.
     CHKiRet (strmWriteChar COOKIE_OBJLINE) (\<lambda>_.
     CHKiRet (strmWrite pszRecType 3) (\<lambda>_.
     CHKiRet (strmWriteChar (CHR '':'')) (\<lambda>_.
     CHKiRet (strmWriteChar (CHR ''1'')) (\<lambda>_.
     CHKiRet (strmWriteChar (CHR '':'')) (\<lambda>_.
     CHKiRet (strmWriteLong (objGetObjID pObj)) (\<lambda>_.
     CHKiRet (strmWriteChar (CHR '':'')) (\<lambda>_.
     CHKiRet (strmWriteLong (objGetVersion pObj)) (\<lambda>_.
     CHKiRet (strmWriteChar (CHR '':'')) (\<lambda>_.
     CHKiRet (strmWrite (objGetClassName pObj) (length (objGetClassName pObj))) (\<lambda>_.
     CHKiRet (strmWriteChar (CHR '':'')) (\<lambda>_.
     strmWriteChar (CHR 0x0A)))))))))))))"

definition BeginSerialize :: "'o obj_t \<Rightarrow> strm \<Rightarrow> unit res \<times> strm" where
  "BeginSerialize pObj =
     CHKiRet strmRecordBegin (\<lambda>_. objSerializeHeader pObj ''Obj'')"

definition BeginSerializePropBag :: "'o obj_t \<Rightarrow> strm \<Rightarrow> unit res \<times> strm" where
  "BeginSerializePropBag pObj =
     CHKiRet strmRecordBegin (\<lambda>_. objSerializeHeader pObj ''OPB'')"

text \<open>
  \<open>SerializeProp\<close> gets the type of the property and a pointer to its value, and reads
  the value at the type it was told. The model joins the two arguments: a property is its
  type with the value the pointer points to, and a null pointer is \<open>None\<close>.
  \<open>PROPTYPE_other\<close> is any value of \<open>propType_t\<close> that the \<open>switch\<close> has no case for.
  A \<open>long\<close> has 64 bits.
\<close>

datatype usr_prop =
    PROPTYPE_PSZ string
  | PROPTYPE_SHORT "16 word"
  | PROPTYPE_INT "32 word"
  | PROPTYPE_LONG "64 word"
  | PROPTYPE_INT64 "64 word"
  | PROPTYPE_CSTR string
  | PROPTYPE_SYSLOGTIME syslogTime
  | PROPTYPE_other

text \<open>The text that \<open>snprintf\<close> would write for a time stamp, however long.\<close>

definition snprintf_syslogTime :: "syslogTime \<Rightarrow> string" where
  "snprintf_syslogTime t =
     dec_int (sint (timeType t)) @ '':'' @ dec_int (sint (year t)) @ '':'' @
     dec_int (sint (month t)) @ '':'' @ dec_int (sint (day t)) @ '':'' @
     dec_int (sint (hour t)) @ '':'' @ dec_int (sint (minute t)) @ '':'' @
     dec_int (sint (second t)) @ '':'' @ dec_int (sint (secfrac t)) @ '':'' @
     dec_int (sint (secfracPrecision t)) @ '':'' @ [OffsetMode t] @ '':'' @
     dec_int (sint (OffsetHour t)) @ '':'' @ dec_int (sint (OffsetMinute t))"

text \<open>The \<open>switch\<close> of \<open>SerializeProp\<close>: the buffer, its length and the value type.\<close>

definition SerializeProp_switch :: "obj_consts \<Rightarrow> usr_prop \<Rightarrow> strm \<Rightarrow> (string \<times> nat \<times> 32 word) res \<times> strm" where
  "SerializeProp_switch K p =
     (case p of
        PROPTYPE_PSZ pszBuf \<Rightarrow> RETiRet (pszBuf, length pszBuf, VARTYPE_STR K)
      | PROPTYPE_SHORT v \<Rightarrow>
          CHKiRet (srUtilItoA (scast v)) (\<lambda>szBuf. RETiRet (szBuf, length szBuf, VARTYPE_NUMBER K))
      | PROPTYPE_INT v \<Rightarrow>
          CHKiRet (srUtilItoA (scast v)) (\<lambda>szBuf. RETiRet (szBuf, length szBuf, VARTYPE_NUMBER K))
      | PROPTYPE_LONG v \<Rightarrow>
          CHKiRet (srUtilItoA v) (\<lambda>szBuf. RETiRet (szBuf, length szBuf, VARTYPE_NUMBER K))
      | PROPTYPE_INT64 v \<Rightarrow>
          CHKiRet (srUtilItoA v) (\<lambda>szBuf. RETiRet (szBuf, length szBuf, VARTYPE_NUMBER K))
      | PROPTYPE_CSTR cs \<Rightarrow> RETiRet (cs, length cs, VARTYPE_STR K)
      | PROPTYPE_SYSLOGTIME t \<Rightarrow>
          (if length (snprintf_syslogTime t) > 64 - 1
           then ABORT_FINALIZE RS_RET_PROVIDED_BUFFER_TOO_SMALL
           else RETiRet (snprintf_syslogTime t, length (snprintf_syslogTime t), VARTYPE_SYSLOGTIME K))
      | PROPTYPE_other \<Rightarrow> RETiRet ([], 0, VARTYPE_NONE K))"

definition SerializeProp :: "obj_consts \<Rightarrow> string \<Rightarrow> usr_prop option \<Rightarrow> strm \<Rightarrow> unit res \<times> strm" where
  "SerializeProp K pszPropName pUsr =
     (case pUsr of
        None \<Rightarrow> RETiRet ()
      | Some p \<Rightarrow>
          CHKiRet (SerializeProp_switch K p) (\<lambda>(pszBuf, lenBuf, vType).
          CHKiRet (strmWriteChar COOKIE_PROPLINE) (\<lambda>_.
          CHKiRet (strmWrite pszPropName (length pszPropName)) (\<lambda>_.
          CHKiRet (strmWriteChar (CHR '':'')) (\<lambda>_.
          CHKiRet (strmWriteLong (sint vType)) (\<lambda>_.
          CHKiRet (strmWriteChar (CHR '':'')) (\<lambda>_.
          CHKiRet (strmWriteLong (int lenBuf)) (\<lambda>_.
          CHKiRet (strmWriteChar (CHR '':'')) (\<lambda>_.
          CHKiRet (strmWrite pszBuf lenBuf) (\<lambda>_.
          CHKiRet (strmWriteChar (CHR '':'')) (\<lambda>_.
          strmWriteChar (CHR 0x0A))))))))))))"

definition EndSerialize :: "strm \<Rightarrow> unit res \<times> strm" where
  "EndSerialize =
     CHKiRet (strmWriteChar COOKIE_ENDLINE) (\<lambda>_.
     CHKiRet (strmWrite (''End'' @ [CHR 0x0A]) 4) (\<lambda>_.
     CHKiRet (strmWriteChar COOKIE_BLANKLINE) (\<lambda>_.
     CHKiRet (strmWriteChar (CHR 0x0A)) (\<lambda>_.
     strmRecordEnd))))"

section \<open>Definitions for the statements\<close>

text \<open>
  A choice of the constants, and a class whose instances are the list of the properties
  they were given. The theorems below hold for every choice; they are run on this one.
\<close>

definition example_consts :: obj_consts where
  "example_consts =
     \<lparr>OBJ_NUM_IDS = 100, OBJ_NUM_METHODS = 8, objMethod_SETPROPERTY = 4,
      objMethod_CONSTRUCTION_FINALIZER = 5, VARTYPE_NONE = 0, VARTYPE_STR = 1,
      VARTYPE_NUMBER = 2, VARTYPE_SYSLOGTIME = 3\<rparr>"

type_synonym bag = "(string \<times> varval) list"

fun bagConstruct :: "bag margs \<Rightarrow> bag res" where
  "bagConstruct args_ppObj = Ok []"
| "bagConstruct (args_pObj pThis) = Crash NullPointer"
| "bagConstruct (args_pObj_pVar pThis pVar) = Crash NullPointer"

fun bagDestruct :: "bag margs \<Rightarrow> bag res" where
  "bagDestruct args_ppObj = Crash NullPointer"
| "bagDestruct (args_pObj pThis) = Ok pThis"
| "bagDestruct (args_pObj_pVar pThis pVar) = Ok pThis"

fun bagSetProperty :: "bag margs \<Rightarrow> bag res" where
  "bagSetProperty args_ppObj = Crash NullPointer"
| "bagSetProperty (args_pObj pThis) = Crash NullPointer"
| "bagSetProperty (args_pObj_pVar pThis pVar) = Ok (pThis @ [(pcsName pVar, val pVar)])"

definition bag_methods :: "bag handler list" where
  "bag_methods =
     [Handler bagConstruct, Handler bagDestruct, objInfoNotImplementedDummy,
      objInfoNotImplementedDummy, Handler bagSetProperty, objInfoNotImplementedDummy,
      objInfoNotImplementedDummy, objInfoNotImplementedDummy]"

definition bag_info :: "bag objInfo" where
  "bag_info = \<lparr>objID = 5, iObjVers = 1, pszName = ''bag'', objMethods = bag_methods\<rparr>"

definition bag_registry :: "bag registry" where
  "bag_registry = (\<lambda>i. if i = 5 then Some bag_info else None)"

definition empty_registry :: "bag registry" where
  "empty_registry = (\<lambda>i. None)"

definition bag_obj :: "bag obj_t" where
  "bag_obj = \<lparr>pObjInfo = bag_info, obj_pszName = None, obj_data = []\<rparr>"

text \<open>A run of calls of \<open>InfoSetMethod\<close> on one descriptor, as the initialisation of a class makes it.\<close>

fun InfoSetMethods :: "obj_consts \<Rightarrow> 'o objInfo \<Rightarrow> (int \<times> 'o handler) list \<Rightarrow> 'o objInfo res" where
  "InfoSetMethods K pThis [] = Ok pThis"
| "InfoSetMethods K pThis ((objMethod, pHandler) # rest) =
     (case InfoSetMethod K pThis objMethod pHandler of
        Ok pThis' \<Rightarrow> InfoSetMethods K pThis' rest
      | Err e \<Rightarrow> Err e
      | Crash f \<Rightarrow> Crash f)"

definition digit_step :: "number_t \<Rightarrow> char \<Rightarrow> number_t" where
  "digit_step i c = i * 10 + of_nat (of_char c) - 48"

text \<open>The text of a header, as \<open>objSerializeHeader\<close> writes it.\<close>

definition header_text :: "string \<Rightarrow> int \<Rightarrow> int \<Rightarrow> string \<Rightarrow> string" where
  "header_text pszRecType oID oVers n =
     [COOKIE_OBJLINE] @ take 3 pszRecType @ '':1:'' @ dec_int oID @ '':'' @ dec_int oVers @ '':''
       @ n @ '':'' @ [CHR 0x0A]"

definition trailer_text :: string where
  "trailer_text = [COOKIE_ENDLINE] @ ''End'' @ [CHR 0x0A, COOKIE_BLANKLINE, CHR 0x0A]"

text \<open>What \<open>SerializeProp\<close> writes for a property, and the \<open>var_t\<close> that it stands for.\<close>

definition prop_vType :: "obj_consts \<Rightarrow> usr_prop \<Rightarrow> 32 word" where
  "prop_vType K p =
     (case p of
        PROPTYPE_PSZ s \<Rightarrow> VARTYPE_STR K
      | PROPTYPE_SHORT v \<Rightarrow> VARTYPE_NUMBER K
      | PROPTYPE_INT v \<Rightarrow> VARTYPE_NUMBER K
      | PROPTYPE_LONG v \<Rightarrow> VARTYPE_NUMBER K
      | PROPTYPE_INT64 v \<Rightarrow> VARTYPE_NUMBER K
      | PROPTYPE_CSTR s \<Rightarrow> VARTYPE_STR K
      | PROPTYPE_SYSLOGTIME t \<Rightarrow> VARTYPE_SYSLOGTIME K
      | PROPTYPE_other \<Rightarrow> VARTYPE_NONE K)"

definition prop_val :: "usr_prop \<Rightarrow> varval" where
  "prop_val p =
     (case p of
        PROPTYPE_PSZ s \<Rightarrow> val_pStr s
      | PROPTYPE_SHORT v \<Rightarrow> val_num (scast v)
      | PROPTYPE_INT v \<Rightarrow> val_num (scast v)
      | PROPTYPE_LONG v \<Rightarrow> val_num v
      | PROPTYPE_INT64 v \<Rightarrow> val_num v
      | PROPTYPE_CSTR s \<Rightarrow> val_pStr s
      | PROPTYPE_SYSLOGTIME t \<Rightarrow> val_vSyslogTime t
      | PROPTYPE_other \<Rightarrow> val_none)"

definition prop_buf :: "usr_prop \<Rightarrow> string" where
  "prop_buf p =
     (case p of
        PROPTYPE_PSZ s \<Rightarrow> s
      | PROPTYPE_SHORT v \<Rightarrow> dec_int (sint (scast v :: number_t))
      | PROPTYPE_INT v \<Rightarrow> dec_int (sint (scast v :: number_t))
      | PROPTYPE_LONG v \<Rightarrow> dec_int (sint v)
      | PROPTYPE_INT64 v \<Rightarrow> dec_int (sint v)
      | PROPTYPE_CSTR s \<Rightarrow> s
      | PROPTYPE_SYSLOGTIME t \<Rightarrow> snprintf_syslogTime t
      | PROPTYPE_other \<Rightarrow> [])"

definition var_of :: "obj_consts \<Rightarrow> string \<times> usr_prop \<Rightarrow> var_t" where
  "var_of K np = \<lparr>pcsName = fst np, varType = prop_vType K (snd np), val = prop_val (snd np)\<rparr>"

definition prop_line :: "obj_consts \<Rightarrow> string \<times> usr_prop \<Rightarrow> string" where
  "prop_line K np =
     [COOKIE_PROPLINE] @ fst np @ '':'' @ dec_int (sint (prop_vType K (snd np))) @ '':''
       @ dec_int (int (length (prop_buf (snd np)))) @ '':'' @ prop_buf (snd np) @ '':'' @ [CHR 0x0A]"

text \<open>
  The properties that come back: the name has no colon in it, a string is not empty and
  no longer than an \<open>int\<close> can count, a time stamp fits the buffer of 64 bytes.
\<close>

definition roundtrippable :: "string \<times> usr_prop \<Rightarrow> bool" where
  "roundtrippable np =
     (CHR '':'' \<notin> set (fst np) \<and>
      (case snd np of
         PROPTYPE_PSZ s \<Rightarrow> s \<noteq> [] \<and> length s < 2 ^ 31
       | PROPTYPE_CSTR s \<Rightarrow> s \<noteq> [] \<and> length s < 2 ^ 31
       | PROPTYPE_SYSLOGTIME t \<Rightarrow> length (snprintf_syslogTime t) \<le> 63
       | PROPTYPE_other \<Rightarrow> False
       | _ \<Rightarrow> True))"

definition serializable :: "usr_prop \<Rightarrow> bool" where
  "serializable p =
     (case p of PROPTYPE_SYSLOGTIME t \<Rightarrow> length (snprintf_syslogTime t) \<le> 63 | _ \<Rightarrow> True)"

text \<open>
  The serializer of a class, which is not part of obj.c, serializes an instance by a call
  of \<open>BeginSerialize\<close>, a call of \<open>SerializeProp\<close> for each of its properties and a call
  of \<open>EndSerialize\<close>.
\<close>

fun SerializeProps :: "obj_consts \<Rightarrow> (string \<times> usr_prop) list \<Rightarrow> strm \<Rightarrow> unit res \<times> strm" where
  "SerializeProps K [] = RETiRet ()"
| "SerializeProps K (np # rest) =
     CHKiRet (SerializeProp K (fst np) (Some (snd np))) (\<lambda>_. SerializeProps K rest)"

definition Serialize :: "obj_consts \<Rightarrow> 'o obj_t \<Rightarrow> (string \<times> usr_prop) list \<Rightarrow> strm \<Rightarrow> unit res \<times> strm" where
  "Serialize K pObj ps =
     CHKiRet (BeginSerialize pObj) (\<lambda>_.
     CHKiRet (SerializeProps K ps) (\<lambda>_.
     EndSerialize))"

definition record_text :: "obj_consts \<Rightarrow> string \<Rightarrow> 'o obj_t \<Rightarrow> (string \<times> usr_prop) list \<Rightarrow> string" where
  "record_text K pszRecType pObj ps =
     header_text pszRecType (objGetObjID pObj) (objGetVersion pObj) (objGetClassName pObj)
       @ concat (map (prop_line K) ps) @ trailer_text"

definition example_time :: syslogTime where
  "example_time =
     \<lparr>timeType = 2, year = 2008, month = 12, day = 31, hour = 23, minute = 59, second = 59,
      secfrac = 999999, secfracPrecision = 6, OffsetMode = CHR ''-'', OffsetHour = 12,
      OffsetMinute = 59\<rparr>"

definition example_props :: "(string \<times> usr_prop) list" where
  "example_props =
     [(''a'', PROPTYPE_INT (- 42)), (''z'', PROPTYPE_LONG 0), (''s'', PROPTYPE_PSZ ''hello''),
      (''t'', PROPTYPE_SYSLOGTIME example_time)]"

definition garbage_then_record :: string where
  "garbage_then_record =
     ''garbage'' @ [CHR 0x0A] @ ''<Obj:1:5:1:bag:'' @ [CHR 0x0A] @ ''>End'' @ [CHR 0x0A] @ ''.'' @ [CHR 0x0A]"

definition record_of_class_7 :: string where
  "record_of_class_7 =
     ''<Obj:1:7:1:other:'' @ [CHR 0x0A] @ ''+a:2:1:1:'' @ [CHR 0x0A] @ ''>End'' @ [CHR 0x0A] @ ''.'' @ [CHR 0x0A]"

text \<open>A newline with the cookie of a header right behind it.\<close>

fun has_boundary :: "char list \<Rightarrow> bool" where
  "has_boundary (a # b # cs) = ((a = CHR 0x0A \<and> b = COOKIE_OBJLINE) \<or> has_boundary (b # cs))"
| "has_boundary [a] = False"
| "has_boundary [] = False"

text \<open>The state a call returns, without the values it returns.\<close>

definition iRet_of :: "'a res \<Rightarrow> unit res" where
  "iRet_of r = (case r of Ok x \<Rightarrow> Ok () | Err e \<Rightarrow> Err e | Crash f \<Rightarrow> Crash f)"



definition opb_record :: string where
  "opb_record =
     ''<OPB:1:5:1:bag:'' @ [CHR 0x0A] @ ''+a:2:1:1:'' @ [CHR 0x0A] @ ''>End'' @ [CHR 0x0A] @ ''.'' @ [CHR 0x0A]"


section \<open>Lemmas\<close>

lemma foldl_list_update_upt:
  "length ms = n \<Longrightarrow> k \<le> n \<Longrightarrow>
     foldl (\<lambda>ms i. ms[i := x]) ms [k ..< n] = take k ms @ replicate (n - k) x"
proof (induction "n - k" arbitrary: k ms)
  case 0
  then show ?case by simp
next
  case (Suc m)
  then have kn: "k < n" by simp
  have "foldl (\<lambda>ms i. ms[i := x]) ms [k ..< n] = foldl (\<lambda>ms i. ms[i := x]) (ms[k := x]) [Suc k ..< n]"
    using kn by (simp add: upt_conv_Cons)
  also have "\<dots> = take (Suc k) (ms[k := x]) @ replicate (n - Suc k) x"
    using Suc(1) [of "Suc k" "ms[k := x]"] Suc(2,3) kn by simp
  also have "\<dots> = take k ms @ replicate (n - k) x"
  proof -
    have "n - k = Suc (n - Suc k)" using kn by simp
    then have "replicate (n - k) x = x # replicate (n - Suc k) x" by simp
    then show ?thesis using kn Suc(3) by (simp add: take_Suc_conv_app_nth)
  qed
  finally show ?case .
qed

lemma InfoConstruct_methods:
  assumes "2 \<le> OBJ_NUM_METHODS K"
  shows "foldl (\<lambda>ms i. ms[i := objInfoNotImplementedDummy])
           ((replicate (OBJ_NUM_METHODS K) NULL_handler)[0 := c, 1 := d]) [2 ..< OBJ_NUM_METHODS K]
         = c # d # replicate (OBJ_NUM_METHODS K - 2) objInfoNotImplementedDummy"
proof -
  define n where "n = OBJ_NUM_METHODS K"
  define ms where "ms = (replicate n NULL_handler)[0 := c, 1 := d]"
  obtain m where m: "n = Suc (Suc m)"
    using assms unfolding n_def by (cases "OBJ_NUM_METHODS K"; cases "OBJ_NUM_METHODS K - 1") auto
  have len: "length ms = n" by (simp add: ms_def)
  have tk: "take 2 ms = [c, d]" by (simp add: ms_def m numeral_2_eq_2)
  have "foldl (\<lambda>ms i. ms[i := objInfoNotImplementedDummy]) ms [2 ..< n]
          = take 2 ms @ replicate (n - 2) objInfoNotImplementedDummy"
    by (rule foldl_list_update_upt [OF len]) (simp add: m)
  then show ?thesis unfolding tk by (simp add: ms_def n_def)
qed

lemma dec_int_0: "dec_int 0 = ''0''"
  by code_simp

lemma InfoSetMethod_Ok:
  assumes "InfoSetMethod K pThis m h = Ok pThis'"
  shows "0 < m" and "m < int (OBJ_NUM_METHODS K)"
    and "objMethods pThis' = (objMethods pThis)[nat m := h]"
  using assms by (auto simp: InfoSetMethod_def split: if_splits)

lemma InfoSetMethods_untouched:
  "InfoSetMethods K pThis sets = Ok pThis' \<Longrightarrow> int i \<notin> fst ` set sets \<Longrightarrow>
     objMethods pThis' ! i = objMethods pThis ! i"
proof (induction sets arbitrary: pThis)
  case Nil
  then show ?case by simp
next
  case (Cons x sets)
  obtain m h where x: "x = (m, h)" by (cases x)
  from Cons.prems(1) obtain p1 where p1: "InfoSetMethod K pThis m h = Ok p1"
    and rest: "InfoSetMethods K p1 sets = Ok pThis'"
    by (auto simp: x split: res.splits)
  from Cons.prems(2) have ne: "int i \<noteq> m" and notin: "int i \<notin> fst ` set sets" by (auto simp: x)
  have "objMethods pThis' ! i = objMethods p1 ! i" using Cons.IH [OF rest notin] .
  also have "\<dots> = objMethods pThis ! i"
    using InfoSetMethod_Ok [OF p1] ne by (auto simp: nth_list_update)
  finally show ?case .
qed

lemma InfoSetMethods_length:
  "InfoSetMethods K pThis sets = Ok pThis' \<Longrightarrow> length (objMethods pThis') = length (objMethods pThis)"
proof (induction sets arbitrary: pThis)
  case Nil
  then show ?case by simp
next
  case (Cons x sets)
  obtain m h where x: "x = (m, h)" by (cases x)
  from Cons.prems obtain p1 where p1: "InfoSetMethod K pThis m h = Ok p1"
    and rest: "InfoSetMethods K p1 sets = Ok pThis'"
    by (auto simp: x split: res.splits)
  show ?case using Cons.IH [OF rest] InfoSetMethod_Ok(3) [OF p1] by simp
qed

lemma InfoConstruct_objMethods:
  assumes "InfoConstruct K calloc_ok oID n v c d = Ok pInfo" and "2 \<le> OBJ_NUM_METHODS K"
  shows "objMethods pInfo = c # d # replicate (OBJ_NUM_METHODS K - 2) objInfoNotImplementedDummy"
proof -
  have "pInfo = \<lparr>objID = oID, iObjVers = v, pszName = n,
               objMethods =
                 foldl (\<lambda>ms i. ms[i := objInfoNotImplementedDummy])
                   ((replicate (OBJ_NUM_METHODS K) NULL_handler)[0 := c, 1 := d])
                   [2 ..< OBJ_NUM_METHODS K]\<rparr>"
    using assms(1) unfolding InfoConstruct_def by (simp split: if_splits)
  then have "objMethods pInfo = foldl (\<lambda>ms i. ms[i := objInfoNotImplementedDummy])
                   ((replicate (OBJ_NUM_METHODS K) NULL_handler)[0 := c, 1 := d])
                   [2 ..< OBJ_NUM_METHODS K]"
    by (simp only: objInfo.select_convs)
  then show ?thesis by (simp only: InfoConstruct_methods [OF assms(2)])
qed

lemma InfoConstruct_Ok:
  assumes "InfoConstruct K calloc_ok oID n v c d = Ok pInfo" and "2 \<le> i" and "i < OBJ_NUM_METHODS K"
  shows "objMethods pInfo ! i = objInfoNotImplementedDummy"
proof -
  have two: "2 \<le> OBJ_NUM_METHODS K" using assms(2,3) by simp
  obtain j where j: "i = Suc (Suc j)"
    using assms(2) by (cases i; cases "i - 1") auto
  have "j < OBJ_NUM_METHODS K - 2" using assms(3) j by simp
  then show ?thesis unfolding InfoConstruct_objMethods [OF assms(1) two] j by simp
qed

text \<open>
  What \<open>RegisterObj\<close> returns for a descriptor and a slot that holds null: the class ids
  from 1 to \<open>OBJ_NUM_IDS\<close>, the bound included, are accepted, 0 is refused, and for any
  other class id the assertion reads outside of the array.
\<close>

lemma RegisterObj_range:
  assumes "Option.is_none (arrObjInfo oID)"
  shows "fst (RegisterObj K oID (Some pInfo) arrObjInfo) =
           (if oID < 0 \<or> oID > OBJ_NUM_IDS K then Crash OutOfBounds
            else if oID < 1 then Err RS_RET_INVALID_OID
            else Ok ())"
  using assms
  by (simp add: RegisterObj_def CHKiRet_def c_assert_def ABORT_FINALIZE_def)

lemma RegisterObj_occupied:
  assumes "0 \<le> oID" and "oID \<le> OBJ_NUM_IDS K" and "\<not> Option.is_none (arrObjInfo oID)"
  shows "RegisterObj K oID (Some pInfo) arrObjInfo = (Crash AssertionFailed, arrObjInfo)"
  using assms
  by (simp add: RegisterObj_def CHKiRet_def c_assert_def ABORT_FINALIZE_def)

lemma strmReadChar_normal: "strmReadChar pStrm = strmReadChar (strm_of (pending pStrm))"
proof (cases "pending pStrm")
  case Nil
  then have "pStrm = strm_of []"
    by (cases pStrm) (auto simp: pending_def strm_of_def split: option.splits)
  then show ?thesis using Nil by simp
next
  case (Cons c cs)
  then show ?thesis by (simp add: strmReadChar_pending)
qed

lemma isdigit_char_of: "(n::nat) < 10 \<Longrightarrow> isdigit (char_of (48 + n))"
  by (simp add: isdigit_def)

lemma dec_nat_digits: "d \<in> set (dec_nat n) \<Longrightarrow> isdigit d"
proof (induction n rule: dec_nat.induct)
  case (1 n)
  show ?case
  proof (cases "n < 10")
    case True
    with "1.prems" show ?thesis by (subst (asm) dec_nat.simps) (simp add: isdigit_char_of)
  next
    case False
    with "1.prems" have "d \<in> set (dec_nat (n div 10)) \<or> d = char_of (48 + n mod 10)"
      by (subst (asm) dec_nat.simps) auto
    then show ?thesis using "1.IH" [OF False] isdigit_char_of [of "n mod 10"] by auto
  qed
qed

lemma dec_nat_not_Nil: "dec_nat n \<noteq> []"
  by (subst dec_nat.simps) simp

lemma digit_step_char_of: "(n::nat) < 10 \<Longrightarrow> digit_step i (char_of (48 + n)) = i * 10 + of_nat n"
  by (simp add: digit_step_def)

lemma foldl_digit_step_dec_nat:
  "foldl digit_step i (dec_nat n) = i * 10 ^ length (dec_nat n) + of_nat n"
proof (induction n arbitrary: i rule: dec_nat.induct)
  case (1 n)
  show ?case
  proof (cases "n < 10")
    case True
    then have "dec_nat n = [char_of (48 + n)]" by (subst dec_nat.simps) simp
    then show ?thesis using True by (simp add: digit_step_char_of)
  next
    case False
    then have eq: "dec_nat n = dec_nat (n div 10) @ [char_of (48 + n mod 10)]"
      by (subst dec_nat.simps) simp
    have "foldl digit_step i (dec_nat n)
            = digit_step (i * 10 ^ length (dec_nat (n div 10)) + of_nat (n div 10)) (char_of (48 + n mod 10))"
      by (simp add: eq "1.IH" [OF False])
    also have "\<dots> = (i * 10 ^ length (dec_nat (n div 10)) + of_nat (n div 10)) * 10 + of_nat (n mod 10)"
      by (simp add: digit_step_char_of)
    also have "\<dots> = i * 10 ^ length (dec_nat n) + (of_nat (n div 10) * 10 + of_nat (n mod 10))"
      by (simp add: eq algebra_simps)
    also have "(of_nat (n div 10) * 10 + of_nat (n mod 10) :: number_t) = of_nat (n div 10 * 10 + n mod 10)"
      by (simp only: of_nat_add of_nat_mult of_nat_numeral)
    also have "(of_nat (n div 10 * 10 + n mod 10) :: number_t) = of_nat n"
      by (rule arg_cong [where f = of_nat]) simp
    finally show ?thesis .
  qed
qed

lemma digits_run:
  assumes "\<forall>d \<in> set (c # ds). isdigit d" and "\<not> isdigit t"
  shows "objDeserializeNumber_digits i c (strm_of (ds @ t # rest))
           = (Ok (foldl digit_step i (c # ds), t), strm_of rest)"
  using assms
proof (induction ds arbitrary: i c)
  case Nil
  then show ?case
    by (subst objDeserializeNumber_digits.simps, simp,
        subst objDeserializeNumber_digits.simps, simp add: digit_step_def)
next
  case (Cons d ds)
  have "objDeserializeNumber_digits i c (strm_of ((d # ds) @ t # rest))
          = objDeserializeNumber_digits (digit_step i c) d (strm_of (ds @ t # rest))"
    using Cons.prems by (subst objDeserializeNumber_digits.simps) (simp add: digit_step_def)
  also have "\<dots> = (Ok (foldl digit_step (digit_step i c) (d # ds), t), strm_of rest)"
    using Cons.prems by (intro Cons.IH) auto
  finally show ?case by simp
qed

lemma not_isdigit_colon [simp]: "\<not> isdigit (CHR '':'')"
  by (simp add: isdigit_def)

lemma not_isdigit_minus [simp]: "\<not> isdigit (CHR ''-'')"
  by (simp add: isdigit_def)

lemma objDeserializeNumber_dec_nat:
  "objDeserializeNumber (strm_of (dec_nat n @ CHR '':'' # rest)) = (Ok (of_nat n), strm_of rest)"
proof -
  obtain c ds where cds: "dec_nat n = c # ds" using dec_nat_not_Nil [of n] by (cases "dec_nat n") auto
  have dig: "\<forall>d \<in> set (c # ds). isdigit d" using dec_nat_digits [of _ n] cds by simp
  then have c: "isdigit c" "c \<noteq> CHR ''-''" by auto
  have run: "objDeserializeNumber_digits 0 c (strm_of (ds @ CHR '':'' # rest))
           = (Ok (foldl digit_step 0 (c # ds), CHR '':''), strm_of rest)"
    by (rule digits_run [OF dig]) simp
  have "foldl digit_step 0 (c # ds) = of_nat n"
    using foldl_digit_step_dec_nat [of 0 n] cds by simp
  with run c show ?thesis
    by (simp add: objDeserializeNumber_def cds CHKiRet_def RETiRet_def ABORT_FINALIZE_def)
qed

lemma objDeserializeNumber_dec_int:
  "objDeserializeNumber (strm_of (dec_int z @ CHR '':'' # rest)) = (Ok (of_int z), strm_of rest)"
proof (cases "z < 0")
  case False
  then have "dec_int z = dec_nat (nat z)" by (simp add: dec_int_def)
  then show ?thesis using False objDeserializeNumber_dec_nat [of "nat z" rest] by simp
next
  case True
  obtain c ds where cds: "dec_nat (nat (- z)) = c # ds"
    using dec_nat_not_Nil [of "nat (- z)"] by (cases "dec_nat (nat (- z))") auto
  have dig: "\<forall>d \<in> set (c # ds). isdigit d" using dec_nat_digits [of _ "nat (- z)"] cds by simp
  then have c: "isdigit c" by auto
  have run: "objDeserializeNumber_digits 0 c (strm_of (ds @ CHR '':'' # rest))
           = (Ok (foldl digit_step 0 (c # ds), CHR '':''), strm_of rest)"
    by (rule digits_run [OF dig]) simp
  have f: "foldl digit_step 0 (c # ds) = of_nat (nat (- z))"
    using foldl_digit_step_dec_nat [of 0 "nat (- z)"] cds by simp
  have "(of_nat (nat (- z)) :: number_t) * (- 1) = of_int z" using True by simp
  with run c f True show ?thesis
    by (simp add: objDeserializeNumber_def dec_int_def cds CHKiRet_def RETiRet_def ABORT_FINALIZE_def)
qed

lemma ucast_scast_32_64: "(ucast (scast (w :: 32 word) :: 64 word) :: 32 word) = w"
  by (rule bit_word_eqI) (auto simp: bit_simps)

lemma sint_ucast_length:
  assumes "n < 2 ^ 31"
  shows "sint (ucast (of_int (int n) :: 64 word) :: 32 word) = int n"
proof -
  have "(ucast (of_int (int n) :: 64 word) :: 32 word) = of_nat n"
    by (rule bit_word_eqI) (auto simp: bit_simps)
  moreover have "sint (of_nat n :: 32 word) = int n"
    using assms by (simp add: signed_of_nat signed_take_bit_int_eq_self)
  ultimately show ?thesis by simp
qed

lemma objDeserializeStr_chars_run:
  "objDeserializeStr_chars (Suc (length ys)) acc c (strm_of (ys @ t # rest))
     = (Ok (acc @ c # ys, t), strm_of rest)"
proof (induction ys arbitrary: acc c)
  case Nil
  show ?case by simp
next
  case (Cons y ys)
  show ?case using Cons.IH [of "acc @ [c]" y] by simp
qed

lemma objDeserializeStr_roundtrip:
  assumes "xs \<noteq> []"
  shows "objDeserializeStr (int (length xs)) (strm_of (xs @ CHR '':'' # rest)) = (Ok xs, strm_of rest)"
proof -
  obtain c ys where xs: "xs = c # ys" using assms by (cases xs) auto
  have n: "nat (int (length xs)) = Suc (length ys)" by (simp add: xs)
  have "objDeserializeStr_chars (Suc (length ys)) [] c (strm_of (ys @ CHR '':'' # rest))
          = (Ok (c # ys, CHR '':''), strm_of rest)"
    using objDeserializeStr_chars_run [of ys "[]" c "CHR '':''" rest] by simp
  then show ?thesis
    unfolding objDeserializeStr_def n
    by (simp add: xs CHKiRet_def c_assert_def RETiRet_def)
qed

lemma GETVAL_roundtrip:
  "GETVAL (strm_of (dec_int (sint w) @ CHR '':'' # rest)) = (Ok w, strm_of rest)"
  by (simp add: GETVAL_def CHKiRet_def RETiRet_def objDeserializeNumber_dec_int ucast_scast_32_64)

lemma objDeserializeProperty_name_run:
  assumes "CHR '':'' \<notin> set (c # ys)"
  shows "objDeserializeProperty_name acc c (strm_of (ys @ CHR '':'' # rest))
           = (Ok (acc @ c # ys), strm_of rest)"
  using assms
proof (induction ys arbitrary: acc c)
  case Nil
  then show ?case
    by (subst objDeserializeProperty_name.simps, simp,
        subst objDeserializeProperty_name.simps, simp)
next
  case (Cons y ys)
  have "objDeserializeProperty_name acc c (strm_of ((y # ys) @ CHR '':'' # rest))
          = objDeserializeProperty_name (acc @ [c]) y (strm_of (ys @ CHR '':'' # rest))"
    using Cons.prems by (subst objDeserializeProperty_name.simps) auto
  also have "\<dots> = (Ok ((acc @ [c]) @ y # ys), strm_of rest)"
    using Cons.prems by (intro Cons.IH) auto
  finally show ?case by simp
qed

text \<open>Reading a name, with the first character still to be read.\<close>

lemma read_name:
  assumes "CHR '':'' \<notin> set n"
  shows "CHKiRet strmReadChar (\<lambda>c. CHKiRet (objDeserializeProperty_name [] c) f)
           (strm_of (n @ CHR '':'' # rest)) = f n (strm_of rest)"
proof (cases n)
  case Nil
  then show ?thesis
    by (simp add: CHKiRet_def) (subst objDeserializeProperty_name.simps, simp)
next
  case (Cons c ys)
  then show ?thesis
    using assms objDeserializeProperty_name_run [of c ys "[]" rest]
    by (simp add: CHKiRet_def)
qed

lemma objDeserializeHeader_skip_run:
  assumes "CHR 0x0A \<notin> set (c # ys)"
  shows "objDeserializeHeader_skip c (strm_of (ys @ CHR 0x0A # rest)) = (Ok (), strm_of rest)"
  using assms
proof (induction ys arbitrary: c)
  case Nil
  then show ?case
    by (subst objDeserializeHeader_skip.simps, simp,
        subst objDeserializeHeader_skip.simps, simp)
next
  case (Cons y ys)
  have "objDeserializeHeader_skip c (strm_of ((y # ys) @ CHR 0x0A # rest))
          = objDeserializeHeader_skip y (strm_of (ys @ CHR 0x0A # rest))"
    using Cons.prems by (subst objDeserializeHeader_skip.simps) auto
  also have "\<dots> = (Ok (), strm_of rest)"
    using Cons.prems by (intro Cons.IH) auto
  finally show ?case .
qed

lemma NEXTC_expect_hit [simp]: "NEXTC_expect x e (strm_of (x # rest)) = (Ok (), strm_of rest)"
  by (simp add: NEXTC_expect_def CHKiRet_def RETiRet_def)

lemma CHKiRet_strmReadChar_Cons [simp]:
  "CHKiRet strmReadChar f (strm_of (c # cs)) = f c (strm_of cs)"
  by (simp add: CHKiRet_def)

lemma CHKiRet_NEXTC_expect_hit [simp]:
  "CHKiRet (NEXTC_expect x e) f (strm_of (x # rest)) = f () (strm_of rest)"
  by (simp add: CHKiRet_def)

lemma CHKiRet_objDeserializeNumber_dec_int [simp]:
  "CHKiRet objDeserializeNumber f (strm_of (dec_int z @ CHR '':'' # rest)) = f (of_int z) (strm_of rest)"
  by (simp add: CHKiRet_def objDeserializeNumber_dec_int)

lemma CHKiRet_GETVAL_dec_int [simp]:
  "CHKiRet GETVAL f (strm_of (dec_int (sint w) @ CHR '':'' # rest)) = f w (strm_of rest)"
  by (simp add: CHKiRet_def GETVAL_roundtrip)

lemma CHKiRet_c_assert_True [simp]: "CHKiRet (c_assert True) f s = f () s"
  by (simp add: CHKiRet_def c_assert_def)

lemma CHKiRet_RETiRet [simp]: "CHKiRet (RETiRet x) f s = f x s"
  by (simp add: CHKiRet_def RETiRet_def)

lemma skip_class_name:
  assumes "CHR 0x0A \<notin> set n"
  shows "CHKiRet strmReadChar (\<lambda>c. CHKiRet (objDeserializeHeader_skip c) f)
           (strm_of (n @ CHR '':'' # CHR 0x0A # rest)) = f () (strm_of rest)"
proof (cases n)
  case Nil
  then show ?thesis
    using objDeserializeHeader_skip_run [of "CHR '':''" "[]" rest]
    by (simp add: CHKiRet_def)
next
  case (Cons c ys)
  then show ?thesis
    using assms objDeserializeHeader_skip_run [of c "ys @ [CHR '':'']" rest]
    by (simp add: CHKiRet_def)
qed

lemma objDeserializeHeader_header_text:
  assumes t: "t = ''Obj'' \<or> t = ''OPB''"
    and oID: "1 \<le> oID" "oID < OBJ_NUM_IDS K" "oID < 2 ^ 63"
    and n: "CHR 0x0A \<notin> set n"
  shows "objDeserializeHeader K t (strm_of (header_text t oID oVers n @ rest))
           = (Ok (oID, ucast (of_int oVers :: number_t)), strm_of rest)"
proof -
  have s: "sint (of_int oID :: number_t) = oID"
    using oID by (simp add: signed_of_int signed_take_bit_int_eq_self)
  from t show ?thesis
  proof
    assume "t = ''Obj''"
    then show ?thesis
      using oID unfolding objDeserializeHeader_def header_text_def
      by (simp add: s skip_class_name [OF n] COOKIE_OBJLINE_def RETiRet_def)
  next
    assume "t = ''OPB''"
    then show ?thesis
      using oID unfolding objDeserializeHeader_def header_text_def
      by (simp add: s skip_class_name [OF n] COOKIE_OBJLINE_def RETiRet_def)
  qed
qed

lemma objDeserializeTrailer_trailer_text:
  "objDeserializeTrailer (strm_of (trailer_text @ rest)) = (Ok (), strm_of rest)"
  unfolding objDeserializeTrailer_def trailer_text_def
  by simp

lemma SerializeProp_switch_serializable:
  "serializable p \<Longrightarrow>
     SerializeProp_switch K p pStrm = (Ok (prop_buf p, length (prop_buf p), prop_vType K p), pStrm)"
  by (cases p)
     (simp_all add: serializable_def SerializeProp_switch_def prop_buf_def prop_vType_def
        srUtilItoA_def RETiRet_def CHKiRet_def)

lemma SerializeProp_prop_line:
  assumes "serializable p"
  shows "SerializeProp K n (Some p) pStrm
           = (Ok (), pStrm\<lparr>unread_data := unread_data pStrm @ prop_line K (n, p)\<rparr>)"
  by (simp add: SerializeProp_def CHKiRet_def SerializeProp_switch_serializable [OF assms]
      strmWriteChar_def strmWrite_def strmWriteLong_def prop_line_def)

lemma roundtrippable_serializable: "roundtrippable (n, p) \<Longrightarrow> serializable p"
  by (cases p) (simp_all add: roundtrippable_def serializable_def)

lemma CHKiRet_objDeserializeStr [simp]:
  assumes "xs \<noteq> []"
  shows "CHKiRet (objDeserializeStr (int (length xs))) f (strm_of (xs @ CHR '':'' # rest))
           = f xs (strm_of rest)"
  by (simp add: CHKiRet_def objDeserializeStr_roundtrip [OF assms])

lemma objDeserializeSyslogTime_roundtrip:
  "objDeserializeSyslogTime (strm_of (snprintf_syslogTime t @ CHR '':'' # rest)) = (Ok t, strm_of rest)"
  unfolding objDeserializeSyslogTime_def snprintf_syslogTime_def
  by (simp add: RETiRet_def)

declare ucast_scast_32_64 [simp]

lemma CHKiRet_objDeserializeSyslogTime [simp]:
  "CHKiRet objDeserializeSyslogTime f (strm_of (snprintf_syslogTime t @ CHR '':'' # rest))
     = f t (strm_of rest)"
  by (simp add: CHKiRet_def objDeserializeSyslogTime_roundtrip)

lemma CHKiRet_assoc [simp]: "CHKiRet (CHKiRet m g) h = CHKiRet m (\<lambda>x. CHKiRet (g x) h)"
  by (rule ext) (simp add: CHKiRet_def split: prod.splits res.splits)

lemma sint_ucast_length_of_nat:
  "n < 2 ^ 31 \<Longrightarrow> sint (ucast (of_nat n :: 64 word) :: 32 word) = int n"
  using sint_ucast_length [of n] by simp

lemma read_prop_buf:
  assumes d: "distinct [VARTYPE_STR K, VARTYPE_NUMBER K, VARTYPE_SYSLOGTIME K]"
    and r: "roundtrippable (n, p)"
  shows "objDeserializeProperty_line K pVar (strm_of (n @ CHR '':'' # dec_int (sint (prop_vType K p)) @ CHR '':'' #
            dec_int (int (length (prop_buf p))) @ CHR '':'' # prop_buf p @ CHR '':'' # CHR 0x0A # rest))
           = (Ok (var_of K (n, p)), strm_of rest)"
proof -
  have n: "CHR '':'' \<notin> set n" using r by (simp add: roundtrippable_def)
  note rn = read_name [OF n]
  have dd: "VARTYPE_STR K \<noteq> VARTYPE_NUMBER K" "VARTYPE_NUMBER K \<noteq> VARTYPE_STR K"
    "VARTYPE_STR K \<noteq> VARTYPE_SYSLOGTIME K" "VARTYPE_SYSLOGTIME K \<noteq> VARTYPE_STR K"
    "VARTYPE_NUMBER K \<noteq> VARTYPE_SYSLOGTIME K" "VARTYPE_SYSLOGTIME K \<noteq> VARTYPE_NUMBER K"
    using d by auto
  show ?thesis
  proof (cases p)
    case (PROPTYPE_PSZ s)
    then have s: "s \<noteq> []" "length s < 2 ^ 31" using r by (simp_all add: roundtrippable_def)
    show ?thesis
      unfolding objDeserializeProperty_line_def
      by (simp add: dd rn PROPTYPE_PSZ prop_vType_def prop_buf_def prop_val_def var_of_def
          sint_ucast_length_of_nat [OF s(2)] s(1) RETiRet_def)
  next
    case (PROPTYPE_CSTR s)
    then have s: "s \<noteq> []" "length s < 2 ^ 31" using r by (simp_all add: roundtrippable_def)
    show ?thesis
      unfolding objDeserializeProperty_line_def
      by (simp add: dd rn PROPTYPE_CSTR prop_vType_def prop_buf_def prop_val_def var_of_def
          sint_ucast_length_of_nat [OF s(2)] s(1) RETiRet_def)
  next
    case (PROPTYPE_SHORT v)
    show ?thesis
      unfolding objDeserializeProperty_line_def
      by (simp add: dd rn PROPTYPE_SHORT prop_vType_def prop_buf_def prop_val_def var_of_def RETiRet_def)
  next
    case (PROPTYPE_INT v)
    show ?thesis
      unfolding objDeserializeProperty_line_def
      by (simp add: dd rn PROPTYPE_INT prop_vType_def prop_buf_def prop_val_def var_of_def RETiRet_def)
  next
    case (PROPTYPE_LONG v)
    show ?thesis
      unfolding objDeserializeProperty_line_def
      by (simp add: dd rn PROPTYPE_LONG prop_vType_def prop_buf_def prop_val_def var_of_def RETiRet_def)
  next
    case (PROPTYPE_INT64 v)
    show ?thesis
      unfolding objDeserializeProperty_line_def
      by (simp add: dd rn PROPTYPE_INT64 prop_vType_def prop_buf_def prop_val_def var_of_def RETiRet_def)
  next
    case (PROPTYPE_SYSLOGTIME t)
    show ?thesis
      unfolding objDeserializeProperty_line_def
      by (simp add: dd rn PROPTYPE_SYSLOGTIME prop_vType_def prop_buf_def prop_val_def var_of_def
          RETiRet_def)
  next
    case PROPTYPE_other
    then show ?thesis using r by (simp add: roundtrippable_def)
  qed
qed

lemma objDeserializeProperty_prop_line:
  assumes "distinct [VARTYPE_STR K, VARTYPE_NUMBER K, VARTYPE_SYSLOGTIME K]"
    and "roundtrippable np"
  shows "objDeserializeProperty K pVar (strm_of (prop_line K np @ rest)) = (Ok (var_of K np), strm_of rest)"
proof -
  obtain n p where np: "np = (n, p)" by (cases np)
  show ?thesis
    using read_prop_buf [OF assms(1) assms(2) [unfolded np], of pVar rest]
    by (simp add: objDeserializeProperty_def prop_line_def np)
qed

lemma objSerializeHeader_header_text:
  assumes "t = ''Obj'' \<or> t = ''OPB''"
  shows "objSerializeHeader pObj t pStrm
     = (Ok (), pStrm\<lparr>unread_data := unread_data pStrm
          @ header_text t (objGetObjID pObj) (objGetVersion pObj) (objGetClassName pObj)\<rparr>)"
  using assms
  by (auto simp: objSerializeHeader_def CHKiRet_def c_assert_def strmWriteChar_def strmWrite_def
      strmWriteLong_def header_text_def)

lemma SerializeProps_prop_lines:
  "\<forall>np \<in> set ps. serializable (snd np) \<Longrightarrow>
     SerializeProps K ps pStrm
       = (Ok (), pStrm\<lparr>unread_data := unread_data pStrm @ concat (map (prop_line K) ps)\<rparr>)"
proof (induction ps arbitrary: pStrm)
  case Nil
  then show ?case by (simp add: RETiRet_def)
next
  case (Cons np ps)
  have a: "serializable (snd np)" using Cons.prems by simp
  show ?case
    using Cons.prems
    by (simp add: CHKiRet_def SerializeProp_prop_line [OF a] Cons.IH)
qed

lemma EndSerialize_trailer_text:
  "EndSerialize pStrm = (Ok (), pStrm\<lparr>unread_data := unread_data pStrm @ trailer_text\<rparr>)"
  by (simp add: EndSerialize_def CHKiRet_def strmWriteChar_def strmWrite_def strmRecordEnd_def
      trailer_text_def)

lemma Serialize_record_text:
  assumes "\<forall>np \<in> set ps. serializable (snd np)"
  shows "Serialize K pObj ps pStrm
           = (Ok (), pStrm\<lparr>unread_data := unread_data pStrm @ record_text K ''Obj'' pObj ps\<rparr>)"
  by (simp add: Serialize_def BeginSerialize_def strmRecordBegin_def CHKiRet_def
      objSerializeHeader_header_text SerializeProps_prop_lines [OF assms]
      EndSerialize_trailer_text record_text_def)

lemma pending_Nil_strm_of: "pending pStrm = [] \<Longrightarrow> pStrm = strm_of []"
  by (cases pStrm) (auto simp: pending_def strm_of_def split: option.splits)

lemma strm_of_append: "(strm_of a)\<lparr>unread_data := unread_data (strm_of a) @ b\<rparr> = strm_of (a @ b)"
  by (simp add: strm_of_def)

lemma objDeserializeTrailer_normal:
  "objDeserializeTrailer pStrm = objDeserializeTrailer (strm_of (pending pStrm))"
  unfolding objDeserializeTrailer_def NEXTC_expect_def CHKiRet_assoc
  by (subst (1 2) CHKiRet_def) (simp add: strmReadChar_normal [of pStrm])

lemma call_method_Ok:
  assumes "arrObjInfo oID = Some pInfo" and "m < length (objMethods pInfo)"
  shows "call_method arrObjInfo oID m a st
           = (invoke (objMethods pInfo ! m) a, st\<lparr>calls := calls st @ [ev_method oID m a]\<rparr>)"
  using assms by (simp add: call_method_def)

lemma loop_reads_props:
  assumes d: "distinct [VARTYPE_STR K, VARTYPE_NUMBER K, VARTYPE_SYSLOGTIME K]"
    and r: "\<forall>np \<in> set ps. roundtrippable np"
    and i: "arrObjInfo oID = Some pInfo" "objMethod_SETPROPERTY K < length (objMethods pInfo)"
    and g: "\<And>pObj pVar. invoke (objMethods pInfo ! objMethod_SETPROPERTY K) (args_pObj_pVar pObj pVar)
                = Ok (g pObj pVar)"
    and c: "c \<noteq> COOKIE_PROPLINE"
  shows "\<exists>cs'. objDeserializeProperties_loop K arrObjInfo oID pObj pVar
              \<lparr>stream = strm_of (concat (map (prop_line K) ps) @ c # rest), calls = cs\<rparr>
           = (Ok (foldl g pObj (map (var_of K) ps), RS_RET_NO_PROPLINE),
              \<lparr>stream = snd (strmUnreadChar c (strm_of rest)), calls = cs'\<rparr>)"
  using r
proof (induction ps arbitrary: pObj pVar cs)
  case Nil
  have "objDeserializeProperty K pVar (strm_of (c # rest))
          = (Err RS_RET_NO_PROPLINE, snd (strmUnreadChar c (strm_of rest)))"
    using c by (simp add: objDeserializeProperty_def CHKiRet_def strmUnreadChar_def ABORT_FINALIZE_def)
  then show ?case
    by (subst objDeserializeProperties_loop.simps) simp
next
  case (Cons np ps)
  have rt: "roundtrippable np" using Cons.prems by simp
  have rd: "objDeserializeProperty K pVar (strm_of (prop_line K np @ concat (map (prop_line K) ps) @ c # rest))
          = (Ok (var_of K np), strm_of (concat (map (prop_line K) ps) @ c # rest))"
    using objDeserializeProperty_prop_line [OF d rt, of pVar "concat (map (prop_line K) ps) @ c # rest"]
    by simp
  obtain cs' where
    "objDeserializeProperties_loop K arrObjInfo oID (g pObj (var_of K np)) (var_of K np)
        \<lparr>stream = strm_of (concat (map (prop_line K) ps) @ c # rest),
         calls = cs @ [ev_method oID (objMethod_SETPROPERTY K) (args_pObj_pVar pObj (var_of K np))]\<rparr>
      = (Ok (foldl g (g pObj (var_of K np)) (map (var_of K) ps), RS_RET_NO_PROPLINE),
          \<lparr>stream = snd (strmUnreadChar c (strm_of rest)), calls = cs'\<rparr>)"
    using Cons.IH Cons.prems by (meson list.set_intros(2))
  then show ?case
    by (subst objDeserializeProperties_loop.simps)
       (simp add: rd call_method_Ok [where arrObjInfo = arrObjInfo and oID = oID, OF i] g)
qed

lemma Deserialize_header_first:
  "objDeserializeHeader K ''Obj'' pStrm = (Ok r, pStrm') \<Longrightarrow> Deserialize_header K pStrm = (Ok r, pStrm')"
  by (subst Deserialize_header.simps) simp

lemma objDeserializeProperties_record:
  assumes d: "distinct [VARTYPE_STR K, VARTYPE_NUMBER K, VARTYPE_SYSLOGTIME K]"
    and r: "\<forall>np \<in> set ps. roundtrippable np"
    and oID: "0 < oID" "oID < OBJ_NUM_IDS K"
    and i: "arrObjInfo oID = Some pInfo" "objMethod_SETPROPERTY K < length (objMethods pInfo)"
    and g: "\<And>pObj pVar. invoke (objMethods pInfo ! objMethod_SETPROPERTY K) (args_pObj_pVar pObj pVar)
                = Ok (g pObj pVar)"
  shows "\<exists>cs'. objDeserializeProperties K arrObjInfo pObj oID
              \<lparr>stream = strm_of (concat (map (prop_line K) ps) @ trailer_text @ rest), calls = cs\<rparr>
           = (Ok (foldl g pObj (map (var_of K) ps)), \<lparr>stream = strm_of rest, calls = cs'\<rparr>)"
proof -
  define tl where "tl = ''End'' @ [CHR 0x0A, COOKIE_BLANKLINE, CHR 0x0A] @ rest"
  have tt: "trailer_text @ rest = COOKIE_ENDLINE # tl"
    by (simp add: trailer_text_def tl_def)
  have ne: "COOKIE_ENDLINE \<noteq> COOKIE_PROPLINE"
    by (simp add: COOKIE_ENDLINE_def COOKIE_PROPLINE_def)
  obtain cs' where loop:
    "objDeserializeProperties_loop K arrObjInfo oID pObj (var_Construct K)
        \<lparr>stream = strm_of (concat (map (prop_line K) ps) @ COOKIE_ENDLINE # tl), calls = cs\<rparr>
       = (Ok (foldl g pObj (map (var_of K) ps), RS_RET_NO_PROPLINE),
          \<lparr>stream = snd (strmUnreadChar COOKIE_ENDLINE (strm_of tl)), calls = cs'\<rparr>)"
    using loop_reads_props [where arrObjInfo = arrObjInfo and oID = oID and g = g, OF d r i g ne]
    by blast
  have "objDeserializeTrailer (snd (strmUnreadChar COOKIE_ENDLINE (strm_of tl)))
          = objDeserializeTrailer (strm_of (trailer_text @ rest))"
    by (subst objDeserializeTrailer_normal) (simp add: tt)
  then have tr: "objDeserializeTrailer (snd (strmUnreadChar COOKIE_ENDLINE (strm_of tl))) = (Ok (), strm_of rest)"
    by (simp add: objDeserializeTrailer_trailer_text)
  have "objDeserializeProperties K arrObjInfo pObj oID
              \<lparr>stream = strm_of (concat (map (prop_line K) ps) @ trailer_text @ rest), calls = cs\<rparr>
           = (Ok (foldl g pObj (map (var_of K) ps)), \<lparr>stream = strm_of rest, calls = cs'\<rparr>)"
    unfolding objDeserializeProperties_def tt
    using oID
    by (simp add: CHKiRet_def c_assert_def loop on_strm_def tr RETiRet_def)
  then show ?thesis by blast
qed

lemma char_of_digits:
  "char_of (48 :: nat) = CHR ''0''" "char_of (49 :: nat) = CHR ''1''" "char_of (50 :: nat) = CHR ''2''"
  "char_of (51 :: nat) = CHR ''3''" "char_of (52 :: nat) = CHR ''4''" "char_of (53 :: nat) = CHR ''5''"
  "char_of (54 :: nat) = CHR ''6''" "char_of (55 :: nat) = CHR ''7''" "char_of (56 :: nat) = CHR ''8''"
  "char_of (57 :: nat) = CHR ''9''"
  by code_simp+

lemma dec_nat_numeral:
  "dec_nat (numeral k) =
     (if (numeral k :: nat) < 10 then [char_of (48 + numeral k :: nat)]
      else dec_nat (numeral k div 10) @ [char_of (48 + numeral k mod 10 :: nat)])"
  by (rule dec_nat.simps)

lemma dec_nat_0: "dec_nat 0 = ''0''"
  by (subst dec_nat.simps) (simp add: char_of_digits)

lemma dec_nat_1: "dec_nat (Suc 0) = ''1''"
  by (subst dec_nat.simps) (simp add: char_of_digits)

lemma snprintf_example_time:
  "snprintf_syslogTime example_time = ''2:2008:12:31:23:59:59:999999:6:-:12:59''"
  by (simp add: snprintf_syslogTime_def example_time_def dec_int_def dec_nat_numeral char_of_digits dec_nat_0 dec_nat_1)

lemma example_props_roundtrippable: "\<forall>np \<in> set example_props. roundtrippable np"
  by (simp add: example_props_def roundtrippable_def snprintf_example_time)

lemma example_props_vars:
  "foldl (\<lambda>pThis pVar. pThis @ [(pcsName pVar, val pVar)]) [] (map (var_of example_consts) example_props)
     = [(''a'', val_num (- 42)), (''z'', val_num 0), (''s'', val_pStr ''hello''),
        (''t'', val_vSyslogTime example_time)]"
  by code_simp

lemma objDeserializeHeader_garbage:
  "objDeserializeHeader example_consts ''Obj'' (strm_of garbage_then_record)
     = (Err RS_RET_INVALID_HEADER, strm_of (tl garbage_then_record))"
  by code_simp

lemma objDeserializeHeader_class_7:
  "objDeserializeHeader example_consts ''Obj'' (strm_of record_of_class_7)
     = (Ok (7, 1), strm_of (drop 18 record_of_class_7))"
  by code_simp

lemma CHKiRet_c_assert_False [simp]: "CHKiRet (c_assert False) f s = (Crash AssertionFailed, s)"
  by (simp add: CHKiRet_def c_assert_def)

lemma has_boundary_Cons: "has_boundary cs \<Longrightarrow> has_boundary (c # cs)"
  by (cases cs) auto

lemma has_boundary_append: "has_boundary ys \<Longrightarrow> has_boundary (zs @ ys)"
  by (induction zs) (auto intro: has_boundary_Cons)

lemma has_boundary_suffix: "suffix ys xs \<Longrightarrow> has_boundary ys \<Longrightarrow> has_boundary xs"
  by (auto simp: suffix_def intro: has_boundary_append)

lemma scan_no_boundary:
  "\<not> has_boundary (if b then CHR 0x0A # cs else cs) \<Longrightarrow>
     objDeserializeTryRecover_scan b (strm_of cs) = (Err RS_RET_EOF, strm_of [])"
proof (induction cs arbitrary: b)
  case Nil
  show ?case by (subst objDeserializeTryRecover_scan.simps) simp
next
  case (Cons c cs)
  consider (nl) "c = CHR 0x0A" | (found) "c \<noteq> CHR 0x0A" "b \<and> c = COOKIE_OBJLINE"
    | (other) "c \<noteq> CHR 0x0A" "\<not> (b \<and> c = COOKIE_OBJLINE)" by blast
  then show ?case
  proof cases
    case nl
    have "\<not> has_boundary (CHR 0x0A # cs)" using Cons.prems nl by (cases b) auto
    then have "objDeserializeTryRecover_scan True (strm_of cs) = (Err RS_RET_EOF, strm_of [])"
      using Cons.IH [of True] by simp
    then show ?thesis using nl by (subst objDeserializeTryRecover_scan.simps) simp
  next
    case found
    then show ?thesis using Cons.prems by simp
  next
    case other
    have "\<not> has_boundary (c # cs)" using Cons.prems by (cases b) auto
    then have "\<not> has_boundary cs" using has_boundary_Cons by blast
    then have "objDeserializeTryRecover_scan False (strm_of cs) = (Err RS_RET_EOF, strm_of [])"
      using Cons.IH [of False] by simp
    then show ?thesis using other by (subst objDeserializeTryRecover_scan.simps) auto
  qed
qed

lemma scan_normal:
  "objDeserializeTryRecover_scan b pStrm = objDeserializeTryRecover_scan b (strm_of (pending pStrm))"
proof -
  have "objDeserializeTryRecover_scan b pStrm =
     (case strmReadChar (strm_of (pending pStrm)) of
        (Ok c, pStrm') \<Rightarrow>
          (if c = CHR 0x0A then objDeserializeTryRecover_scan True pStrm'
           else if b \<and> c = COOKIE_OBJLINE then (Ok c, pStrm')
           else objDeserializeTryRecover_scan False pStrm')
      | (Err e, pStrm') \<Rightarrow> (Err e, pStrm')
      | (Crash f, pStrm') \<Rightarrow> (Crash f, pStrm'))"
    by (subst objDeserializeTryRecover_scan.simps) (simp only: strmReadChar_normal [of pStrm])
  also have "\<dots> = objDeserializeTryRecover_scan b (strm_of (pending pStrm))"
    by (rule objDeserializeTryRecover_scan.simps [symmetric])
  finally show ?thesis .
qed

lemma objDeserializeTryRecover_no_boundary:
  assumes "\<not> has_boundary (pending pStrm)"
  shows "objDeserializeTryRecover pStrm = (Err RS_RET_EOF, strm_of [])"
proof -
  have "objDeserializeTryRecover_scan False pStrm = (Err RS_RET_EOF, strm_of [])"
    using scan_no_boundary [of False "pending pStrm"] assms by (subst scan_normal) simp
  then show ?thesis by (simp add: objDeserializeTryRecover_def CHKiRet_def)
qed

lemma header_then_no_boundary:
  assumes "\<not> has_boundary (pending pStrm)" and "objDeserializeHeader K t pStrm = (r, pStrm1)"
  shows "objDeserializeTryRecover pStrm1 = (Err RS_RET_EOF, strm_of [])"
proof -
  have "suffix (pending pStrm1) (pending pStrm)"
    using consumesD [OF consumes_objDeserializeHeader assms(2)] .
  then have "\<not> has_boundary (pending pStrm1)" using assms(1) has_boundary_suffix by blast
  then show ?thesis by (rule objDeserializeTryRecover_no_boundary)
qed

text \<open>
  The loop of \<open>DeserializePropBag\<close> calls the scanner when the header does not parse, and
  hands on what the scanner returns.
\<close>

lemma DeserializePropBag_no_boundary:
  assumes "\<not> has_boundary (pending (stream st))"
    and "objDeserializeHeader K ''OPB'' (stream st) = (Err e, pStrm1)"
  shows "fst (DeserializePropBag K arrObjInfo pObj st) = Err RS_RET_EOF"
proof -
  have "DeserializePropBag_header K (stream st) = (Err RS_RET_EOF, strm_of [])"
    by (subst DeserializePropBag_header.simps)
       (simp add: assms(2) header_then_no_boundary [OF assms])
  then show ?thesis
    by (simp add: DeserializePropBag_def CHKiRet_def on_strm_def)
qed













lemma opb_record_written:
  "CHKiRet (BeginSerializePropBag bag_obj) (\<lambda>_.
   CHKiRet (SerializeProp example_consts ''a'' (Some (PROPTYPE_INT 1))) (\<lambda>_. EndSerialize)) (strm_of [])
     = (Ok (), strm_of opb_record)"
  by code_simp



section \<open>The claims\<close>

subsection \<open>C1\<close>

text \<open>
  C1. \<open>Deserialize\<close> does not run the recovery scanner when the header does not parse:
  the call of \<open>abort()\<close> in front of \<open>objDeserializeTryRecover\<close> ends the process,
  whatever follows in the stream.
\<close>

theorem Deserialize_aborts_on_bad_header:
  assumes "0 < objTypeExpected" and "objTypeExpected < OBJ_NUM_IDS K"
    and "objDeserializeHeader K ''Obj'' (stream st) = (Err e, pStrm1)"
  shows "Deserialize K arrObjInfo objTypeExpected fFixup st = (Crash AbortCalled, st\<lparr>stream := pStrm1\<rparr>)"
proof -
  have "Deserialize_header K (stream st) = (Crash AbortCalled, pStrm1)"
    by (subst Deserialize_header.simps) (simp add: assms(3) c_abort_def)
  then show ?thesis
    using assms(1,2) by (simp add: Deserialize_def CHKiRet_def c_assert_def on_strm_def)
qed

theorem Deserialize_aborts_on_bad_header_witness:
  "(0::int) < 5 \<and> 5 < OBJ_NUM_IDS example_consts
   \<and> objDeserializeHeader example_consts ''Obj'' (strm_of garbage_then_record)
        = (Err RS_RET_INVALID_HEADER, strm_of (tl garbage_then_record))
   \<and> Deserialize example_consts bag_registry 5 None \<lparr>stream = strm_of garbage_then_record, calls = []\<rparr>
        = (Crash AbortCalled, \<lparr>stream = strm_of (tl garbage_then_record), calls = []\<rparr>)"
proof -
  have h1: "(0::int) < 5" by simp
  have h2: "5 < OBJ_NUM_IDS example_consts" by (simp add: example_consts_def)
  have h3: "objDeserializeHeader example_consts ''Obj'' (stream \<lparr>stream = strm_of garbage_then_record, calls = []\<rparr>)
        = (Err RS_RET_INVALID_HEADER, strm_of (tl garbage_then_record))"
    by (simp add: objDeserializeHeader_garbage)
  from Deserialize_aborts_on_bad_header [OF h1 h2 h3, of bag_registry None] h1 h2 objDeserializeHeader_garbage
  show ?thesis by simp
qed

subsection \<open>C2\<close>




subsection \<open>C3\<close>

text \<open>
  C3. \<open>RegisterObj\<close> compares with \<open>oID > OBJ_NUM_IDS\<close>, where the parser of headers
  and the assertions of \<open>Deserialize\<close> compare with \<open>>=\<close>: the class id
  \<open>OBJ_NUM_IDS\<close>, which is outside of \<open>[1, OBJ_NUM_IDS)\<close>, is not refused. The call
  returns \<open>RS_RET_OK\<close> and writes the pointer behind the end of the array.
\<close>

theorem RegisterObj_accepts_OBJ_NUM_IDS:
  assumes "1 \<le> OBJ_NUM_IDS K" and "Option.is_none (arrObjInfo (OBJ_NUM_IDS K))"
  shows "RegisterObj K (OBJ_NUM_IDS K) (Some pInfo) arrObjInfo
           = (Ok (), arrObjInfo(OBJ_NUM_IDS K := Some pInfo))"
  using assms
  by (simp add: RegisterObj_def CHKiRet_def c_assert_def ABORT_FINALIZE_def)

theorem RegisterObj_accepts_OBJ_NUM_IDS_witness:
  "1 \<le> OBJ_NUM_IDS example_consts \<and> Option.is_none (empty_registry (OBJ_NUM_IDS example_consts))
   \<and> RegisterObj example_consts 100 (Some bag_info) empty_registry
        = (Ok (), empty_registry(100 := Some bag_info))"
proof -
  have h1: "1 \<le> OBJ_NUM_IDS example_consts" by (simp add: example_consts_def)
  have h2: "Option.is_none (empty_registry (OBJ_NUM_IDS example_consts))" by (simp add: empty_registry_def)
  have n: "OBJ_NUM_IDS example_consts = 100" by (simp add: example_consts_def)
  from RegisterObj_accepts_OBJ_NUM_IDS
         [where K = example_consts and arrObjInfo = empty_registry and pInfo = bag_info, OF h1 h2] h1 h2
  show ?thesis unfolding n by simp
qed

subsection \<open>C4\<close>

text \<open>
  C4. On a stream without a newline that has the cookie of a header right behind it,
  whose start is not a header, \<open>objDeserializeTryRecover\<close> would return \<open>RS_RET_EOF\<close>
  behind the failed header, and \<open>objDeserializeObjAsPropBag\<close>, which reads the same
  header, returns \<open>RS_RET_EOF\<close>. \<open>Deserialize\<close> does not: it never calls the scanner,
  the call of \<open>abort()\<close> in front of it ends the process, and no \<open>RS_RET_EOF\<close> reaches
  the caller.
\<close>

theorem Deserialize_no_boundary_aborts:
  assumes "0 < objTypeExpected" and "objTypeExpected < OBJ_NUM_IDS K"
    and "\<not> has_boundary (pending (stream st))"
    and "objDeserializeHeader K ''Obj'' (stream st) = (Err e, pStrm1)"
  shows "objDeserializeTryRecover pStrm1 = (Err RS_RET_EOF, strm_of [])
       \<and> fst (objDeserializeObjAsPropBag K arrObjInfo pObj st) = Err RS_RET_EOF
       \<and> Deserialize K arrObjInfo objTypeExpected fFixup st = (Crash AbortCalled, st\<lparr>stream := pStrm1\<rparr>)
       \<and> fst (Deserialize K arrObjInfo objTypeExpected fFixup st) \<noteq> Err RS_RET_EOF"
proof -
  have r: "objDeserializeTryRecover pStrm1 = (Err RS_RET_EOF, strm_of [])"
    using header_then_no_boundary [OF assms(3,4)] .
  have "objDeserializeObjAsPropBag_header K (stream st) = (Err RS_RET_EOF, strm_of [])"
    by (subst objDeserializeObjAsPropBag_header.simps) (simp add: assms(4) r)
  then have b: "fst (objDeserializeObjAsPropBag K arrObjInfo pObj st) = Err RS_RET_EOF"
    by (simp add: objDeserializeObjAsPropBag_def CHKiRet_def on_strm_def)
  have "Deserialize_header K (stream st) = (Crash AbortCalled, pStrm1)"
    by (subst Deserialize_header.simps) (simp add: assms(4) c_abort_def)
  then have d: "Deserialize K arrObjInfo objTypeExpected fFixup st = (Crash AbortCalled, st\<lparr>stream := pStrm1\<rparr>)"
    using assms(1,2) by (simp add: Deserialize_def CHKiRet_def c_assert_def on_strm_def)
  show ?thesis using r b d by simp
qed

theorem Deserialize_no_boundary_aborts_witness:
  "(0::int) < 5 \<and> 5 < OBJ_NUM_IDS example_consts
   \<and> \<not> has_boundary ''garbage''
   \<and> objDeserializeHeader example_consts ''Obj'' (strm_of ''garbage'')
        = (Err RS_RET_INVALID_HEADER, strm_of ''arbage'')
   \<and> objDeserializeTryRecover (strm_of ''arbage'') = (Err RS_RET_EOF, strm_of [])
   \<and> iRet_of (fst (objDeserializeObjAsPropBag example_consts bag_registry bag_obj
                     \<lparr>stream = strm_of ''garbage'', calls = []\<rparr>)) = Err RS_RET_EOF
   \<and> Deserialize example_consts bag_registry 5 None \<lparr>stream = strm_of ''garbage'', calls = []\<rparr>
        = (Crash AbortCalled, \<lparr>stream = strm_of ''arbage'', calls = []\<rparr>)"
proof -
  have h1: "(0::int) < 5" by simp
  have h2: "5 < OBJ_NUM_IDS example_consts" by (simp add: example_consts_def)
  have h3: "\<not> has_boundary (pending (stream \<lparr>stream = strm_of ''garbage'', calls = ([] :: bag event list)\<rparr>))"
    by (simp add: COOKIE_OBJLINE_def)
  have g: "objDeserializeHeader example_consts ''Obj'' (strm_of ''garbage'')
        = (Err RS_RET_INVALID_HEADER, strm_of ''arbage'')"
    by code_simp
  have h4: "objDeserializeHeader example_consts ''Obj''
              (stream \<lparr>stream = strm_of ''garbage'', calls = ([] :: bag event list)\<rparr>)
        = (Err RS_RET_INVALID_HEADER, strm_of ''arbage'')"
    using g by simp
  note t = Deserialize_no_boundary_aborts [OF h1 h2 h3 h4, of bag_registry bag_obj None]
  from t have "objDeserializeTryRecover (strm_of ''arbage'') = (Err RS_RET_EOF, strm_of [])"
    and "fst (objDeserializeObjAsPropBag example_consts bag_registry bag_obj
                     \<lparr>stream = strm_of ''garbage'', calls = []\<rparr>) = Err RS_RET_EOF"
    and "Deserialize example_consts bag_registry 5 None \<lparr>stream = strm_of ''garbage'', calls = []\<rparr>
        = (Crash AbortCalled, \<lparr>stream = strm_of ''arbage'', calls = []\<rparr>)"
    by simp_all
  then show ?thesis using h1 h2 h3 g by (simp add: iRet_of_def)
qed

subsection \<open>C5\<close>

text \<open>
  C5, as amended. \<open>InfoSetMethod\<close> overwrites the slot it is given and no other, for
  every slot above 0 and below \<open>OBJ_NUM_METHODS\<close>. For slot 0, the slot of the
  constructor, and for a slot out of range its assertion fails. Nothing guards slot 1,
  the slot of the destructor.
\<close>

theorem InfoSetMethod_overwrites:
  assumes "length (objMethods pThis) = OBJ_NUM_METHODS K"
  shows "(0 < m \<and> m < int (OBJ_NUM_METHODS K) \<longrightarrow>
            (\<exists>pThis'. InfoSetMethod K pThis m h = Ok pThis'
               \<and> objMethods pThis' ! nat m = h
               \<and> (\<forall>i. i \<noteq> nat m \<longrightarrow> objMethods pThis' ! i = objMethods pThis ! i)
               \<and> length (objMethods pThis') = OBJ_NUM_METHODS K
               \<and> objID pThis' = objID pThis \<and> iObjVers pThis' = iObjVers pThis
               \<and> pszName pThis' = pszName pThis))
       \<and> (\<not> (0 < m \<and> m < int (OBJ_NUM_METHODS K)) \<longrightarrow>
            InfoSetMethod K pThis m h = Crash AssertionFailed)
       \<and> (2 \<le> OBJ_NUM_METHODS K \<longrightarrow>
            (\<exists>pThis'. InfoSetMethod K pThis 1 h = Ok pThis'
               \<and> objMethods pThis' ! objMethod_DESTRUCT = h))"
  using assms by (auto simp: InfoSetMethod_def objMethod_DESTRUCT_def)

theorem InfoSetMethod_overwrites_witness:
  "length (objMethods bag_info) = OBJ_NUM_METHODS example_consts
   \<and> (0::int) < 4 \<and> 4 < int (OBJ_NUM_METHODS example_consts)
   \<and> 2 \<le> OBJ_NUM_METHODS example_consts
   \<and> \<not> ((0::int) < 0 \<and> 0 < int (OBJ_NUM_METHODS example_consts))
   \<and> (\<exists>pThis'. InfoSetMethod example_consts bag_info 4 objInfoNotImplementedDummy = Ok pThis'
          \<and> objMethods pThis' ! 4 = objInfoNotImplementedDummy
          \<and> objMethods pThis' ! 0 = objMethods bag_info ! 0)
   \<and> (\<exists>pThis'. InfoSetMethod example_consts bag_info 1 objInfoNotImplementedDummy = Ok pThis'
          \<and> objMethods pThis' ! objMethod_DESTRUCT = objInfoNotImplementedDummy)
   \<and> InfoSetMethod example_consts bag_info 0 objInfoNotImplementedDummy = Crash AssertionFailed"
proof -
  have h1: "length (objMethods bag_info) = OBJ_NUM_METHODS example_consts"
    by (simp add: bag_info_def bag_methods_def example_consts_def)
  have h2: "(0::int) < 4 \<and> 4 < int (OBJ_NUM_METHODS example_consts)" by (simp add: example_consts_def)
  have h3: "2 \<le> OBJ_NUM_METHODS example_consts" by (simp add: example_consts_def)
  have h4: "\<not> ((0::int) < 0 \<and> 0 < int (OBJ_NUM_METHODS example_consts))" by simp
  from InfoSetMethod_overwrites [OF h1, of 4 objInfoNotImplementedDummy]
       InfoSetMethod_overwrites [OF h1, of 0 objInfoNotImplementedDummy] h1 h2 h3 h4
  show ?thesis by (auto simp del: One_nat_def)
qed

text \<open>
  C5, as stated, fails for the slot of the constructor: the assertion
  \<open>objMethod > 0\<close> guards it.
\<close>

theorem InfoSetMethod_slot_0_counterexample:
  "InfoSetMethod example_consts bag_info 0 (Handler bagSetProperty) = Crash AssertionFailed"
  by (simp add: InfoSetMethod_def)

subsection \<open>C6\<close>

text \<open>
  C6, as amended. An instance is serialized with properties whose names have no colon in
  them and whose values are strings that are not empty, integers of any width and sign,
  and time stamps whose text fits the buffer of 64 bytes. Deserializing the record with
  the class id of the instance, on a class whose constructor and property setter
  succeed, calls the property setter with the same names and values, in the same order,
  and returns the instance that these calls built.
\<close>

theorem serialize_deserialize_roundtrip:
  assumes d: "distinct [VARTYPE_STR K, VARTYPE_NUMBER K, VARTYPE_SYSLOGTIME K]"
    and oID: "0 < objGetObjID pObj" "objGetObjID pObj < OBJ_NUM_IDS K" "OBJ_NUM_IDS K \<le> 2 ^ 31"
    and nm: "CHR 0x0A \<notin> set (objGetClassName pObj)"
    and r: "\<forall>np \<in> set ps. roundtrippable np"
    and i: "arrObjInfo (objGetObjID pObj) = Some pInfo"
    and len: "0 < length (objMethods pInfo)" "objMethod_SETPROPERTY K < length (objMethods pInfo)"
    and lenf: "objMethod_CONSTRUCTION_FINALIZER K < length (objMethods pInfo)"
    and ctor: "invoke (objMethods pInfo ! objMethod_CONSTRUCT) args_ppObj = Ok pNew"
    and g: "\<And>pObj pVar. invoke (objMethods pInfo ! objMethod_SETPROPERTY K) (args_pObj_pVar pObj pVar)
                = Ok (g pObj pVar)"
    and fin: "\<not> objInfoIsImplemented pInfo (objMethod_CONSTRUCTION_FINALIZER K)"
    and e: "pending pStrm = []"
  shows "\<exists>pStrm' st'.
           Serialize K pObj ps pStrm = (Ok (), pStrm')
         \<and> Deserialize K arrObjInfo (objGetObjID pObj) None \<lparr>stream = pStrm', calls = cs\<rparr>
             = (Ok (foldl g pNew (map (var_of K) ps)), st')
         \<and> pending (stream st') = []"
proof -
  define E where "E = objGetObjID pObj"
  define body where "body = concat (map (prop_line K) ps) @ trailer_text @ []"
  have ser: "\<forall>np \<in> set ps. serializable (snd np)"
    using r roundtrippable_serializable by (metis prod.collapse)
  have s0: "pStrm = strm_of []" using e by (rule pending_Nil_strm_of)
  have w: "Serialize K pObj ps pStrm = (Ok (), strm_of (record_text K ''Obj'' pObj ps))"
    unfolding Serialize_record_text [OF ser] s0 by (simp add: strm_of_append)
  have rt: "record_text K ''Obj'' pObj ps
              = header_text ''Obj'' E (objGetVersion pObj) (objGetClassName pObj) @ body"
    by (simp add: record_text_def E_def body_def)
  have lt: "E < 2 ^ 63" using oID(2,3) by (simp add: E_def)
  have h: "objDeserializeHeader K ''Obj'' (strm_of (record_text K ''Obj'' pObj ps))
             = (Ok (E, ucast (of_int (objGetVersion pObj) :: number_t)), strm_of body)"
    unfolding rt
    using oID(1,2) lt nm by (intro objDeserializeHeader_header_text) (simp_all add: E_def)
  note hl = Deserialize_header_first [OF h]
  have c: "call_method arrObjInfo E objMethod_CONSTRUCT args_ppObj \<lparr>stream = strm_of body, calls = cs\<rparr>
             = (Ok pNew, \<lparr>stream = strm_of body, calls = cs @ [ev_method E objMethod_CONSTRUCT args_ppObj]\<rparr>)"
    using i len(1) ctor by (simp add: call_method_def E_def objMethod_CONSTRUCT_def)
  obtain cs' where p:
    "objDeserializeProperties K arrObjInfo pNew E
        \<lparr>stream = strm_of body, calls = cs @ [ev_method E objMethod_CONSTRUCT args_ppObj]\<rparr>
      = (Ok (foldl g pNew (map (var_of K) ps)), \<lparr>stream = strm_of [], calls = cs'\<rparr>)"
    using objDeserializeProperties_record
            [where arrObjInfo = arrObjInfo and oID = E and pInfo = pInfo and g = g and rest = "[]",
             OF d r oID(1,2) [folded E_def] i [folded E_def] len(2) g]
    unfolding body_def by blast
  have "Deserialize K arrObjInfo E None \<lparr>stream = strm_of (record_text K ''Obj'' pObj ps), calls = cs\<rparr>
          = (Ok (foldl g pNew (map (var_of K) ps)), \<lparr>stream = strm_of [], calls = cs'\<rparr>)"
    unfolding Deserialize_def
    using oID(1,2) fin lenf
    by (simp add: CHKiRet_def c_assert_def on_strm_def hl c Deserialize_finalize_def p call_fFixup_def
        i [folded E_def] RETiRet_def E_def [symmetric])
  then show ?thesis using w by (auto simp: E_def)
qed

text \<open>The theorem on a record with a negative integer, zero, a string and a time stamp.\<close>

theorem serialize_deserialize_roundtrip_witness:
  "distinct [VARTYPE_STR example_consts, VARTYPE_NUMBER example_consts, VARTYPE_SYSLOGTIME example_consts]
   \<and> 0 < objGetObjID bag_obj \<and> objGetObjID bag_obj < OBJ_NUM_IDS example_consts
   \<and> OBJ_NUM_IDS example_consts \<le> 2 ^ 31
   \<and> CHR 0x0A \<notin> set (objGetClassName bag_obj)
   \<and> list_all roundtrippable example_props
   \<and> bag_registry (objGetObjID bag_obj) = Some bag_info
   \<and> objMethod_SETPROPERTY example_consts < length (objMethods bag_info)
   \<and> objMethod_CONSTRUCTION_FINALIZER example_consts < length (objMethods bag_info)
   \<and> \<not> objInfoIsImplemented bag_info (objMethod_CONSTRUCTION_FINALIZER example_consts)
   \<and> (\<exists>pStrm' st'.
         Serialize example_consts bag_obj example_props (strm_of []) = (Ok (), pStrm')
       \<and> Deserialize example_consts bag_registry 5 None \<lparr>stream = pStrm', calls = []\<rparr>
           = (Ok [(''a'', val_num (- 42)), (''z'', val_num 0), (''s'', val_pStr ''hello''),
                  (''t'', val_vSyslogTime example_time)], st')
       \<and> pending (stream st') = [])"
proof -
  have d: "distinct [VARTYPE_STR example_consts, VARTYPE_NUMBER example_consts, VARTYPE_SYSLOGTIME example_consts]"
    by (simp add: example_consts_def)
  have id5: "objGetObjID bag_obj = 5" by (simp add: objGetObjID_def bag_obj_def bag_info_def)
  have oID: "0 < objGetObjID bag_obj" "objGetObjID bag_obj < OBJ_NUM_IDS example_consts"
    "OBJ_NUM_IDS example_consts \<le> 2 ^ 31"
    by (simp_all add: id5 example_consts_def)
  have nm: "CHR 0x0A \<notin> set (objGetClassName bag_obj)"
    by (simp add: objGetClassName_def bag_obj_def bag_info_def)
  note r = example_props_roundtrippable
  have i: "bag_registry (objGetObjID bag_obj) = Some bag_info" by (simp add: id5 bag_registry_def)
  have len: "0 < length (objMethods bag_info)" "objMethod_SETPROPERTY example_consts < length (objMethods bag_info)"
    by (simp_all add: bag_info_def bag_methods_def example_consts_def)
  have lenf: "objMethod_CONSTRUCTION_FINALIZER example_consts < length (objMethods bag_info)"
    by (simp add: bag_info_def bag_methods_def example_consts_def)
  have ctor: "invoke (objMethods bag_info ! objMethod_CONSTRUCT) args_ppObj = Ok []"
    by (simp add: bag_info_def bag_methods_def objMethod_CONSTRUCT_def)
  have g: "invoke (objMethods bag_info ! objMethod_SETPROPERTY example_consts) (args_pObj_pVar pObj pVar)
             = Ok (pObj @ [(pcsName pVar, val pVar)])" for pObj pVar
    by (simp add: bag_info_def bag_methods_def example_consts_def)
  have fin: "\<not> objInfoIsImplemented bag_info (objMethod_CONSTRUCTION_FINALIZER example_consts)"
    by (simp add: objInfoIsImplemented_def bag_info_def bag_methods_def example_consts_def)
  have e: "pending (strm_of []) = []" by simp
  from serialize_deserialize_roundtrip
         [where K = example_consts and pObj = bag_obj and ps = example_props
            and arrObjInfo = bag_registry and pInfo = bag_info and pNew = "[]"
            and g = "\<lambda>pThis pVar. pThis @ [(pcsName pVar, val pVar)]" and pStrm = "strm_of []"
            and cs = "[]",
          OF d oID nm r i len lenf ctor g fin e]
  have "\<exists>pStrm' st'.
         Serialize example_consts bag_obj example_props (strm_of []) = (Ok (), pStrm')
       \<and> Deserialize example_consts bag_registry 5 None \<lparr>stream = pStrm', calls = []\<rparr>
           = (Ok [(''a'', val_num (- 42)), (''z'', val_num 0), (''s'', val_pStr ''hello''),
                  (''t'', val_vSyslogTime example_time)], st')
       \<and> pending (stream st') = []"
    unfolding example_props_vars id5 .
  moreover have "list_all roundtrippable example_props"
    using r by (simp add: list_all_iff)
  ultimately show ?thesis using d oID nm i len lenf fin by blast
qed

text \<open>
  C6, as stated, fails for a property whose name has a colon in it: the format ends the
  name at the first colon and does not escape it, so the rest of the name is read as the
  number of the value type.
\<close>

theorem roundtrip_colon_in_name_counterexample:
  "fst (Deserialize example_consts bag_registry 5 None
     \<lparr>stream = snd (Serialize example_consts bag_obj [(''a:b'', PROPTYPE_INT 1)] (strm_of [])), calls = []\<rparr>)
    = Err RS_RET_INVALID_NUMBER"
  by code_simp

subsection \<open>C7\<close>

text \<open>
  C7. When the header at the start of the stream parses and declares a class id other
  than the expected one, \<open>Deserialize\<close> returns \<open>RS_RET_INVALID_OID\<close> and has called
  no handler of any class: the list of calls is as it was.
\<close>

theorem Deserialize_class_id_mismatch:
  assumes "0 < objTypeExpected" and "objTypeExpected < OBJ_NUM_IDS K"
    and "objDeserializeHeader K ''Obj'' (stream st) = (Ok (oID, oVers), pStrm1)"
    and "oID \<noteq> objTypeExpected"
  shows "Deserialize K arrObjInfo objTypeExpected fFixup st
           = (Err RS_RET_INVALID_OID, st\<lparr>stream := pStrm1\<rparr>)
       \<and> calls (snd (Deserialize K arrObjInfo objTypeExpected fFixup st)) = calls st"
proof -
  have "Deserialize_header K (stream st) = (Ok (oID, oVers), pStrm1)"
    by (rule Deserialize_header_first [OF assms(3)])
  then have "Deserialize K arrObjInfo objTypeExpected fFixup st
           = (Err RS_RET_INVALID_OID, st\<lparr>stream := pStrm1\<rparr>)"
    using assms(1,2,4)
    by (simp add: Deserialize_def CHKiRet_def c_assert_def on_strm_def ABORT_FINALIZE_def)
  then show ?thesis by simp
qed

theorem Deserialize_class_id_mismatch_witness:
  "(0::int) < 5 \<and> 5 < OBJ_NUM_IDS example_consts
   \<and> objDeserializeHeader example_consts ''Obj'' (strm_of record_of_class_7)
        = (Ok (7, 1), strm_of (drop 18 record_of_class_7))
   \<and> (7::int) \<noteq> 5
   \<and> fst (Deserialize example_consts bag_registry 5 None \<lparr>stream = strm_of record_of_class_7, calls = []\<rparr>)
        = Err RS_RET_INVALID_OID
   \<and> calls (snd (Deserialize example_consts bag_registry 5 None
                    \<lparr>stream = strm_of record_of_class_7, calls = []\<rparr>)) = []"
proof -
  have h1: "(0::int) < 5" by simp
  have h2: "5 < OBJ_NUM_IDS example_consts" by (simp add: example_consts_def)
  have h3: "objDeserializeHeader example_consts ''Obj'' (stream \<lparr>stream = strm_of record_of_class_7, calls = []\<rparr>)
        = (Ok (7, 1), strm_of (drop 18 record_of_class_7))"
    by (simp add: objDeserializeHeader_class_7)
  have h4: "(7::int) \<noteq> 5" by simp
  from Deserialize_class_id_mismatch [OF h1 h2 h3 h4, of bag_registry None] h1 h2 h4
       objDeserializeHeader_class_7
  show ?thesis by simp
qed

subsection \<open>C8\<close>

text \<open>
  C8. A descriptor is built by \<open>InfoConstruct\<close>, then some of its slots are set by
  \<open>InfoSetMethod\<close>, then it is registered by \<open>RegisterObj\<close>. Every slot from 2 on
  that was never set holds \<open>objInfoNotImplementedDummy\<close>, in the descriptor and in the
  registry, and a call of it, directly or through the registry, returns
  \<open>RS_RET_NOT_IMPLEMENTED\<close>.
\<close>

theorem unset_slot_holds_dummy:
  assumes "InfoConstruct K calloc_ok oID n v pConstruct pDestruct = Ok pInfo0"
    and "InfoSetMethods K pInfo0 sets = Ok pInfo"
    and "RegisterObj K rID (Some pInfo) arrObjInfo = (Ok (), arrObjInfo')"
    and "2 \<le> i" and "i < OBJ_NUM_METHODS K" and "int i \<notin> fst ` set sets"
  shows "objMethods pInfo ! i = objInfoNotImplementedDummy
       \<and> \<not> objInfoIsImplemented pInfo i
       \<and> invoke (objMethods pInfo ! i) a = Err RS_RET_NOT_IMPLEMENTED
       \<and> arrObjInfo' rID = Some pInfo
       \<and> fst (call_method arrObjInfo' rID i a st) = Err RS_RET_NOT_IMPLEMENTED"
proof -
  have d: "objMethods pInfo ! i = objInfoNotImplementedDummy"
    using InfoSetMethods_untouched [OF assms(2,6)] InfoConstruct_Ok [OF assms(1,4,5)] by simp
  have two: "2 \<le> OBJ_NUM_METHODS K" using assms(4,5) by simp
  have "length (objMethods pInfo0) = OBJ_NUM_METHODS K"
    using InfoConstruct_objMethods [OF assms(1) two] two by simp
  then have l: "length (objMethods pInfo) = OBJ_NUM_METHODS K"
    using InfoSetMethods_length [OF assms(2)] by simp
  have r: "arrObjInfo' rID = Some pInfo"
    using assms(3)
    by (auto simp: RegisterObj_def CHKiRet_def c_assert_def ABORT_FINALIZE_def split: if_splits)
  show ?thesis using d r l assms(5) by (simp add: objInfoIsImplemented_def call_method_def)
qed

theorem unset_slot_holds_dummy_witness:
  "InfoConstruct example_consts True 5 ''bag'' 1 (Handler bagConstruct) (Handler bagDestruct)
      = Ok (bag_info\<lparr>objMethods := (objMethods bag_info)[4 := objInfoNotImplementedDummy]\<rparr>)
   \<and> InfoSetMethods example_consts (bag_info\<lparr>objMethods := (objMethods bag_info)[4 := objInfoNotImplementedDummy]\<rparr>)
        [(4, Handler bagSetProperty)] = Ok bag_info
   \<and> RegisterObj example_consts 5 (Some bag_info) empty_registry = (Ok (), empty_registry(5 := Some bag_info))
   \<and> (2::nat) \<le> 5 \<and> (5::nat) < OBJ_NUM_METHODS example_consts
   \<and> int 5 \<notin> fst ` set [(4::int, Handler bagSetProperty)]
   \<and> objMethods bag_info ! 5 = objInfoNotImplementedDummy
   \<and> invoke (objMethods bag_info ! 5) (args_pObj []) = Err RS_RET_NOT_IMPLEMENTED
   \<and> (empty_registry(5 := Some bag_info)) 5 = Some bag_info
   \<and> fst (call_method (empty_registry(5 := Some bag_info)) 5 5 (args_pObj []) \<lparr>stream = strm_of [], calls = []\<rparr>)
        = Err RS_RET_NOT_IMPLEMENTED"
proof -
  have two: "2 \<le> OBJ_NUM_METHODS example_consts" by (simp add: example_consts_def)
  have h1: "InfoConstruct example_consts True 5 ''bag'' 1 (Handler bagConstruct) (Handler bagDestruct)
      = Ok (bag_info\<lparr>objMethods := (objMethods bag_info)[4 := objInfoNotImplementedDummy]\<rparr>)"
  proof -
    have "InfoConstruct example_consts True 5 ''bag'' 1 (Handler bagConstruct) (Handler bagDestruct)
      = Ok \<lparr>objID = 5, iObjVers = 1, pszName = ''bag'',
             objMethods = Handler bagConstruct # Handler bagDestruct
                # replicate (OBJ_NUM_METHODS example_consts - 2) objInfoNotImplementedDummy\<rparr>"
      unfolding InfoConstruct_def InfoConstruct_methods [OF two] by simp
    also have "OBJ_NUM_METHODS example_consts - 2 = Suc (Suc (Suc (Suc (Suc (Suc 0)))))"
      by (simp add: example_consts_def)
    finally show ?thesis by (simp add: bag_info_def bag_methods_def)
  qed
  have h2: "InfoSetMethods example_consts (bag_info\<lparr>objMethods := (objMethods bag_info)[4 := objInfoNotImplementedDummy]\<rparr>)
        [(4, Handler bagSetProperty)] = Ok bag_info"
    by (simp add: InfoSetMethod_def example_consts_def bag_info_def bag_methods_def)
  have h3: "RegisterObj example_consts 5 (Some bag_info) empty_registry = (Ok (), empty_registry(5 := Some bag_info))"
    by (simp add: RegisterObj_def CHKiRet_def c_assert_def ABORT_FINALIZE_def empty_registry_def example_consts_def)
  have h4: "(2::nat) \<le> 5" by simp
  have h5: "(5::nat) < OBJ_NUM_METHODS example_consts" by (simp add: example_consts_def)
  have h6: "int 5 \<notin> fst ` set [(4::int, Handler bagSetProperty)]" by simp
  from unset_slot_holds_dummy
         [OF h1 h2 h3 h4 h5 h6, of "args_pObj []" "\<lparr>stream = strm_of [], calls = []\<rparr>"]
       h1 h2 h3 h4 h5 h6
  show ?thesis by simp
qed

subsection \<open>C9\<close>

text \<open>
  C9. For an empty string \<open>SerializeProp\<close> writes a property line with the length 0.
  \<open>objDeserializeStr\<close> asserts \<open>iLen > 0\<close>, so reading that line back ends in the failed
  assertion: the empty string does not come back.
\<close>

theorem empty_string_fails_assertion:
  assumes "CHR '':'' \<notin> set n" and "pending pStrm = []"
  shows "SerializeProp K n (Some (PROPTYPE_PSZ [])) pStrm
           = (Ok (), pStrm\<lparr>unread_data := unread_data pStrm @ [COOKIE_PROPLINE] @ n @ '':''
                @ dec_int (sint (VARTYPE_STR K)) @ '':'' @ ''0'' @ '':'' @ [] @ '':'' @ [CHR 0x0A]\<rparr>)
       \<and> (iLen \<le> 0 \<longrightarrow> objDeserializeStr iLen s = (Crash AssertionFailed, s))
       \<and> fst (objDeserializeProperty K pVar (snd (SerializeProp K n (Some (PROPTYPE_PSZ [])) pStrm)))
           = Crash AssertionFailed"
proof -
  have w: "SerializeProp K n (Some (PROPTYPE_PSZ [])) pStrm
           = (Ok (), pStrm\<lparr>unread_data := unread_data pStrm @ [COOKIE_PROPLINE] @ n @ '':''
                @ dec_int (sint (VARTYPE_STR K)) @ '':'' @ ''0'' @ '':'' @ [] @ '':'' @ [CHR 0x0A]\<rparr>)"
    by (simp add: SerializeProp_def SerializeProp_switch_def CHKiRet_def RETiRet_def strmWriteChar_def
        strmWrite_def strmWriteLong_def dec_int_0)
  have a: "iLen \<le> 0 \<longrightarrow> objDeserializeStr iLen s = (Crash AssertionFailed, s)"
    by (simp add: objDeserializeStr_def CHKiRet_def c_assert_def)
  have s0: "pStrm = strm_of []" using assms(2) by (rule pending_Nil_strm_of)
  have st: "snd (SerializeProp K n (Some (PROPTYPE_PSZ [])) pStrm)
              = strm_of (COOKIE_PROPLINE # n @ CHR '':'' # dec_int (sint (VARTYPE_STR K)) @ CHR '':'' #
                          dec_int 0 @ CHR '':'' # CHR '':'' # [CHR 0x0A])"
    using w by (simp add: s0 strm_of_def dec_int_0)
  have "objDeserializeProperty K pVar
          (strm_of (COOKIE_PROPLINE # n @ CHR '':'' # dec_int (sint (VARTYPE_STR K)) @ CHR '':'' #
                          dec_int 0 @ CHR '':'' # CHR '':'' # [CHR 0x0A]))
          = (Crash AssertionFailed, strm_of (CHR '':'' # [CHR 0x0A]))"
    unfolding objDeserializeProperty_def objDeserializeProperty_line_def
    by (simp add: read_name [OF assms(1)] objDeserializeStr_def)
  then show ?thesis using w a st by simp
qed

theorem empty_string_fails_assertion_witness:
  "CHR '':'' \<notin> set ''a'' \<and> pending (strm_of []) = [] \<and> (0::int) \<le> 0
   \<and> objDeserializeStr 0 (strm_of '':'') = (Crash AssertionFailed, strm_of '':'')
   \<and> fst (objDeserializeProperty example_consts (var_Construct example_consts)
            (snd (SerializeProp example_consts ''a'' (Some (PROPTYPE_PSZ [])) (strm_of []))))
        = Crash AssertionFailed"
proof -
  have h1: "CHR '':'' \<notin> set ''a''" by simp
  have h2: "pending (strm_of []) = []" by simp
  note t = empty_string_fails_assertion
             [OF h1 h2, of example_consts 0 "strm_of '':''" "var_Construct example_consts"]
  have h3: "(0::int) \<le> 0" by simp
  from t h3 have c2: "objDeserializeStr 0 (strm_of '':'') = (Crash AssertionFailed, strm_of '':'')"
    by blast
  from t have c3: "fst (objDeserializeProperty example_consts (var_Construct example_consts)
            (snd (SerializeProp example_consts ''a'' (Some (PROPTYPE_PSZ [])) (strm_of []))))
        = Crash AssertionFailed" by blast
  from h1 h2 h3 c2 c3 show ?thesis by blast
qed

subsection \<open>C10\<close>

text \<open>
  C10. \<open>SerializeProp\<close> with a value and a property type that the \<open>switch\<close> does not
  know returns \<open>RS_RET_OK\<close>; it writes the cookie, the name, the number of
  \<open>VARTYPE_NONE\<close>, the length 0 and no value.
\<close>

theorem SerializeProp_unknown_type:
  "SerializeProp K pszPropName (Some PROPTYPE_other) pStrm =
     (Ok (), pStrm\<lparr>unread_data := unread_data pStrm @ [COOKIE_PROPLINE] @ pszPropName @ '':''
                @ dec_int (sint (VARTYPE_NONE K)) @ '':'' @ ''0'' @ '':'' @ [] @ '':'' @ [CHR 0x0A]\<rparr>)"
  by (simp add: SerializeProp_def SerializeProp_switch_def CHKiRet_def RETiRet_def strmWriteChar_def
      strmWrite_def strmWriteLong_def dec_int_0)

end
